theory Spec2Isabelle
  imports Complex_Main "HOL-Library.Word" "HOL-Library.Dlist"
begin

unbundle bit_operations_syntax

section \<open>Review queue (reviewQueue.ts)\<close>

text \<open>
  Strings of the program are modelled as \<^typ>\<open>string\<close>; one character of the model stands for
  one UTF-16 code unit of the program (only code units below 256 are represented).
  Times are milliseconds since the epoch, as returned by \<^verbatim>\<open>Date.now()\<close>, modelled as \<^typ>\<open>int\<close>;
  the configured interval is a whole number of milliseconds.
\<close>

subsection \<open>hashDiff\<close>

definition digit36 :: "nat \<Rightarrow> char" where
  "digit36 d = ''0123456789abcdefghijklmnopqrstuvwxyz'' ! d"

text \<open>\<^verbatim>\<open>Number.prototype.toString(36)\<close> on a non-negative integer.\<close>

function toString36 :: "nat \<Rightarrow> string" where
  "toString36 n = (if n < 36 then [digit36 n] else toString36 (n div 36) @ [digit36 (n mod 36)])"
  by pat_completeness auto
termination
  by (relation "measure id") auto

declare toString36.simps [simp del]

text \<open>
  The loop \<^verbatim>\<open>h = Math.imul(h, 31) ^ s.charCodeAt(i)\<close> runs on 32-bit integers; \<^verbatim>\<open>h >>> 0\<close>
  reads the result as an unsigned 32-bit number.
\<close>

definition hashStep :: "32 word \<Rightarrow> char \<Rightarrow> 32 word" where
  "hashStep h c = (h * 31) XOR of_nat (of_char c)"

definition hashDiff :: "string \<Rightarrow> string" where
  "hashDiff s = toString36 (unat (foldl hashStep 5381 s))"

subsection \<open>State of the module\<close>

text \<open>
  The result of \<^verbatim>\<open>await getFileDiff(filePath)\<close> (gitService, an external collaborator):
  the promise rejects (\<open>DiffError\<close>), or resolves to \<^verbatim>\<open>null\<close>/\<^verbatim>\<open>undefined\<close>
  (\<open>DiffValue None\<close>) or to a string.
\<close>

datatype diff_result = DiffError | DiffValue "string option"

text \<open>The calls the module makes to its three callbacks.\<close>

datatype event = CountdownEv int | BatchReadyEv "string list" | BatchEmptyEv

text \<open>
  The module-level variables. \<open>pendingFiles\<close> is a JavaScript \<^verbatim>\<open>Set\<close>: a duplicate-free
  collection iterated in insertion order. A callback variable is \<open>True\<close> when a function is
  registered and \<open>False\<close> when it is \<^verbatim>\<open>undefined\<close>. \<open>flushTimer\<close> holds the time at which the
  pending \<^verbatim>\<open>setTimeout\<close> is due; \<open>countdownInterval\<close> holds the time at which the
  \<^verbatim>\<open>setInterval\<close> ticker is next due together with the \<^verbatim>\<open>remaining\<close> variable its callback
  closes over.
\<close>

record queue_state =
  minIntervalMs :: int
  pendingFiles :: "string dlist"
  lastReviewAt :: int
  reviewedDiffHash :: "string \<rightharpoonup> string"
  flushTimer :: "int option"
  onBatchReady :: bool
  onCountdown :: bool
  onBatchEmpty :: bool
  countdownInterval :: "(int \<times> int) option"

definition initialQueue :: queue_state where
  "initialQueue = \<lparr>minIntervalMs = 30000, pendingFiles = Dlist.empty, lastReviewAt = 0,
     reviewedDiffHash = Map.empty, flushTimer = None, onBatchReady = False,
     onCountdown = False, onBatchEmpty = False, countdownInterval = None\<rparr>"

text \<open>\<^verbatim>\<open>Set.prototype.add\<close>: a new element goes to the end, a present one changes nothing.\<close>

definition setAdd :: "'a \<Rightarrow> 'a dlist \<Rightarrow> 'a dlist" where
  "setAdd x d = (if Dlist.member d x then d else Dlist (list_of_dlist d @ [x]))"

subsection \<open>Public API\<close>

definition configure :: "int option \<Rightarrow> queue_state \<Rightarrow> queue_state" where
  "configure cfg s = (case cfg of None \<Rightarrow> s | Some v \<Rightarrow> s\<lparr>minIntervalMs := v\<rparr>)"

definition setOnBatchReady :: "queue_state \<Rightarrow> queue_state" where
  "setOnBatchReady s = s\<lparr>onBatchReady := True\<rparr>"

definition setOnCountdown :: "queue_state \<Rightarrow> queue_state" where
  "setOnCountdown s = s\<lparr>onCountdown := True\<rparr>"

definition setOnBatchEmpty :: "queue_state \<Rightarrow> queue_state" where
  "setOnBatchEmpty s = s\<lparr>onBatchEmpty := True\<rparr>"

definition stopCountdown :: "queue_state \<Rightarrow> queue_state" where
  "stopCountdown s =
     (case countdownInterval s of None \<Rightarrow> s | Some i \<Rightarrow> s\<lparr>countdownInterval := None\<rparr>)"

text \<open>
  \<^verbatim>\<open>setTimeout\<close> of the host keeps its delay in a signed 32-bit integer: a delay above
  \<open>2\<^sup>3\<^sup>1 - 1\<close> milliseconds is replaced by 1.
\<close>

definition TIMEOUT_MAX :: int where
  "TIMEOUT_MAX = 2147483647"

definition timeoutDelay :: "int \<Rightarrow> int" where
  "timeoutDelay delay = (if delay > TIMEOUT_MAX then 1 else delay)"

text \<open>
  \<open>scheduleFlush now s\<close>, where \<open>now\<close> is the value of \<^verbatim>\<open>Date.now()\<close>. The result is the new
  state and the callbacks invoked during the call.
\<close>

definition scheduleFlush :: "int \<Rightarrow> queue_state \<Rightarrow> queue_state \<times> event list" where
  "scheduleFlush now s =
     (case flushTimer s of
        Some t \<Rightarrow> (s, [])
      | None \<Rightarrow>
          (let elapsed = now - lastReviewAt s;
               delay = max 0 (minIntervalMs s - elapsed);
               (s1, evs) =
                 (if delay > 0 \<and> onCountdown s
                  then (let remaining = \<lceil>real_of_int delay / 1000\<rceil>
                        in (s\<lparr>countdownInterval := Some (now + 1000, remaining)\<rparr>,
                            [CountdownEv remaining]))
                  else (s, []))
           in (s1\<lparr>flushTimer := Some (now + timeoutDelay delay)\<rparr>, evs)))"

definition enqueueFile :: "int \<Rightarrow> string \<Rightarrow> queue_state \<Rightarrow> queue_state \<times> event list" where
  "enqueueFile now filePath s =
     scheduleFlush now (s\<lparr>pendingFiles := setAdd filePath (pendingFiles s)\<rparr>)"

definition cancelPending :: "queue_state \<Rightarrow> queue_state" where
  "cancelPending s =
     (let s1 = stopCountdown (s\<lparr>pendingFiles := Dlist.empty\<rparr>)
      in case flushTimer s1 of None \<Rightarrow> s1 | Some t \<Rightarrow> s1\<lparr>flushTimer := None\<rparr>)"

definition resetQueue :: "queue_state \<Rightarrow> queue_state" where
  "resetQueue s =
     (let s1 = stopCountdown (s\<lparr>pendingFiles := Dlist.empty, reviewedDiffHash := Map.empty,
                 lastReviewAt := 0, minIntervalMs := 30000, onBatchReady := False,
                 onCountdown := False, onBatchEmpty := False\<rparr>)
      in case flushTimer s1 of None \<Rightarrow> s1 | Some t \<Rightarrow> s1\<lparr>flushTimer := None\<rparr>)"

subsection \<open>runFlush\<close>

text \<open>
  The body of the loop over the candidates, on the fingerprint map and the list
  \<^verbatim>\<open>toReview\<close>; \<open>getFileDiff\<close> gives what the diff fetch of each file returns during this flush.
\<close>

definition reviewCandidate ::
  "(string \<Rightarrow> diff_result) \<Rightarrow> string \<Rightarrow> (string \<rightharpoonup> string) \<times> string list
     \<Rightarrow> (string \<rightharpoonup> string) \<times> string list" where
  "reviewCandidate getFileDiff filePath acc =
     (case acc of (hashes, toReview) \<Rightarrow>
        (case getFileDiff filePath of
           DiffError \<Rightarrow> (hashes, toReview @ [filePath])
         | DiffValue None \<Rightarrow> (hashes, toReview)
         | DiffValue (Some diff) \<Rightarrow>
             if diff = [] then (hashes, toReview)
             else (let hash = hashDiff diff
                   in if hashes filePath = Some hash then (hashes, toReview)
                      else (hashes(filePath \<mapsto> hash), toReview @ [filePath]))))"

fun reviewCandidates ::
  "(string \<Rightarrow> diff_result) \<Rightarrow> string list \<Rightarrow> (string \<rightharpoonup> string) \<times> string list
     \<Rightarrow> (string \<rightharpoonup> string) \<times> string list" where
  "reviewCandidates getFileDiff [] acc = acc"
| "reviewCandidates getFileDiff (filePath # rest) acc =
     reviewCandidates getFileDiff rest (reviewCandidate getFileDiff filePath acc)"

text \<open>
  A flush from its start to its end, for the case that no other call reaches the module while
  the flush awaits its diffs: \<open>toReviewOf getFileDiff s\<close> is the value of the local variable
  \<^verbatim>\<open>toReview\<close> after the loop of a flush started in \<open>s\<close>, and \<open>runFlush now getFileDiff s\<close> is
  the state behind the flush with the callbacks it invokes.
\<close>

definition toReviewOf :: "(string \<Rightarrow> diff_result) \<Rightarrow> queue_state \<Rightarrow> string list" where
  "toReviewOf getFileDiff s =
     snd (reviewCandidates getFileDiff (list_of_dlist (pendingFiles s)) (reviewedDiffHash s, []))"

definition runFlush ::
  "int \<Rightarrow> (string \<Rightarrow> diff_result) \<Rightarrow> queue_state \<Rightarrow> queue_state \<times> event list" where
  "runFlush now getFileDiff s =
     (if Dlist.length (pendingFiles s) = 0 then (s, [])
      else
        (let candidates = list_of_dlist (pendingFiles s);
             s1 = s\<lparr>pendingFiles := Dlist.empty, lastReviewAt := now\<rparr>;
             (hashes, toReview) = reviewCandidates getFileDiff candidates (reviewedDiffHash s1, []);
             s2 = s1\<lparr>reviewedDiffHash := hashes\<rparr>
         in if length toReview > 0
            then (s2, if onBatchReady s2 then [BatchReadyEv toReview] else [])
            else (s2, if onBatchEmpty s2 then [BatchEmptyEv] else [])))"

text \<open>
  Two readings of the loop body, used to state what a flush does to one file: whether the file
  is pushed to \<^verbatim>\<open>toReview\<close> when it is examined with the fingerprint map \<open>m\<close>, and the
  fingerprint the map holds for it afterwards.
\<close>

definition included :: "(string \<Rightarrow> diff_result) \<Rightarrow> (string \<rightharpoonup> string) \<Rightarrow> string \<Rightarrow> bool" where
  "included g m f =
     (case g f of
        DiffError \<Rightarrow> True
      | DiffValue None \<Rightarrow> False
      | DiffValue (Some d) \<Rightarrow> d \<noteq> [] \<and> m f \<noteq> Some (hashDiff d))"

definition newHash ::
  "(string \<Rightarrow> diff_result) \<Rightarrow> (string \<rightharpoonup> string) \<Rightarrow> string \<Rightarrow> string option" where
  "newHash g m f =
     (case g f of
        DiffError \<Rightarrow> m f
      | DiffValue None \<Rightarrow> m f
      | DiffValue (Some d) \<Rightarrow> if d = [] then m f else Some (hashDiff d))"

subsection \<open>A flush between its awaits\<close>

text \<open>
  \<^verbatim>\<open>runFlush\<close> is an \<^verbatim>\<open>async\<close> function. It runs up to its first \<^verbatim>\<open>await getFileDiff(filePath)\<close>,
  and each time the awaited fetch settles it goes on up to the next one or, behind the last
  candidate, to its end. Between two of these pieces other calls reach the module, and the
  timer callback frees \<^verbatim>\<open>flushTimer\<close> before it starts the flush, so another flush can start
  while this one waits.

  A \<open>flush_frame\<close> holds the local variables of a flush that waits for a fetch: the files of
  \<^verbatim>\<open>candidates\<close> from the one being fetched on, and \<^verbatim>\<open>toReview\<close>. \<open>fetched\<close> is not a variable of
  the program: it keeps what the fetch of each file examined so far has returned, so that a
  dispatch can be reported with the fingerprint of the diff that led to it. A \<open>world\<close> is the
  module together with the flushes that wait.
\<close>

record flush_frame =
  candidates :: "string list"
  toReview :: "string list"
  fetched :: "string \<Rightarrow> diff_result"

record world =
  queue :: queue_state
  flushes :: "flush_frame list"

text \<open>The call of \<^verbatim>\<open>runFlush\<close> at time \<open>now\<close>, up to its first \<^verbatim>\<open>await\<close>.\<close>

definition startFlush :: "int \<Rightarrow> world \<Rightarrow> world" where
  "startFlush now w =
     (let s = queue w
      in if Dlist.length (pendingFiles s) = 0 then w
         else w\<lparr>queue := s\<lparr>pendingFiles := Dlist.empty, lastReviewAt := now\<rparr>,
                flushes := flushes w
                  @ [\<lparr>candidates = list_of_dlist (pendingFiles s), toReview = [],
                      fetched = (\<lambda>f. DiffValue None)\<rparr>]\<rparr>)"

text \<open>
  The fetch awaited by the \<open>k\<close>-th waiting flush settles with \<open>result\<close>: the body of the loop
  runs for the file, and then the flush waits for the next fetch or, behind the last
  candidate, ends with its callback.
\<close>

definition diffSettled :: "nat \<Rightarrow> diff_result \<Rightarrow> world \<Rightarrow> world \<times> event list" where
  "diffSettled k result w =
     (if k < length (flushes w)
      then
        (let frame = flushes w ! k; s = queue w
         in case candidates frame of
              [] \<Rightarrow> (w, [])
            | filePath # rest \<Rightarrow>
                (case reviewCandidate (\<lambda>f. result) filePath (reviewedDiffHash s, toReview frame) of
                   (hashes, toReview1) \<Rightarrow>
                     (let s1 = s\<lparr>reviewedDiffHash := hashes\<rparr>
                      in if rest = []
                         then (w\<lparr>queue := s1,
                                 flushes := take k (flushes w) @ drop (k + 1) (flushes w)\<rparr>,
                               if length toReview1 > 0
                               then (if onBatchReady s1 then [BatchReadyEv toReview1] else [])
                               else (if onBatchEmpty s1 then [BatchEmptyEv] else []))
                         else (w\<lparr>queue := s1,
                                 flushes := (flushes w)
                                   [k := \<lparr>candidates = rest, toReview = toReview1,
                                          fetched = (fetched frame)(filePath := result)\<rparr>]\<rparr>,
                               []))))
      else (w, []))"

text \<open>
  The first waiting flush run to its end with nothing in between: \<open>getFileDiff\<close> gives what
  the fetch of each of the remaining candidates \<open>files\<close> returns.
\<close>

fun settleAll :: "(string \<Rightarrow> diff_result) \<Rightarrow> string list \<Rightarrow> world \<Rightarrow> world \<times> event list" where
  "settleAll getFileDiff [] w = (w, [])"
| "settleAll getFileDiff (filePath # files) w =
     (case diffSettled 0 (getFileDiff filePath) w of
        (w1, evs) \<Rightarrow>
          (case settleAll getFileDiff files w1 of (w2, evs2) \<Rightarrow> (w2, evs @ evs2)))"

subsection \<open>Timer callbacks\<close>

text \<open>
  The callback given to \<^verbatim>\<open>setTimeout\<close> in \<^verbatim>\<open>scheduleFlush\<close>, run at time \<open>now\<close>: it frees
  \<^verbatim>\<open>flushTimer\<close>, stops the ticker and starts a flush, which it does not await.
\<close>

definition flushTimerFired :: "int \<Rightarrow> world \<Rightarrow> world" where
  "flushTimerFired now w =
     startFlush now (w\<lparr>queue := stopCountdown ((queue w)\<lparr>flushTimer := None\<rparr>)\<rparr>)"

text \<open>
  The callback given to \<^verbatim>\<open>setInterval\<close>; it decrements its \<^verbatim>\<open>remaining\<close> variable. The ticker
  stays armed for one more period unless the callback stops it.
\<close>

definition countdownTick :: "queue_state \<Rightarrow> queue_state \<times> event list" where
  "countdownTick s =
     (case countdownInterval s of
        None \<Rightarrow> (s, [])
      | Some (due, remaining) \<Rightarrow>
          (let remaining' = remaining - 1
           in if remaining' > 0
              then (s\<lparr>countdownInterval := Some (due + 1000, remaining')\<rparr>,
                    if onCountdown s then [CountdownEv remaining'] else [])
              else (stopCountdown s, [])))"

subsection \<open>The timers of the host\<close>

text \<open>
  The timer that the host runs next when it lets the time pass up to \<open>T\<close>: the one that is due
  first; \<open>tickFirst\<close> says which one runs first when the ticker and the flush timer are due in
  the same millisecond. A callback runs at the time its timer is due.
\<close>

datatype due = FlushAt int | TickAt int





subsection \<open>Sequences of operations\<close>

text \<open>
  What reaches the module: the calls of its exported functions, the two timer callbacks, and
  the settling of the fetch that the \<open>k\<close>-th waiting flush awaits; with the value of
  \<^verbatim>\<open>Date.now()\<close> where the call reads it. The flush timer runs its callback only when it is set
  and due.
\<close>

datatype queue_op =
    Configure "int option"
  | SetOnBatchReady
  | SetOnCountdown
  | SetOnBatchEmpty
  | EnqueueFile int string
  | CancelPending
  | ResetQueue
  | FlushTimerFires int
  | CountdownTicks
  | DiffSettles nat diff_result

fun exec :: "queue_op \<Rightarrow> world \<Rightarrow> world \<times> event list" where
  "exec (Configure cfg) w = (w\<lparr>queue := configure cfg (queue w)\<rparr>, [])"
| "exec SetOnBatchReady w = (w\<lparr>queue := setOnBatchReady (queue w)\<rparr>, [])"
| "exec SetOnCountdown w = (w\<lparr>queue := setOnCountdown (queue w)\<rparr>, [])"
| "exec SetOnBatchEmpty w = (w\<lparr>queue := setOnBatchEmpty (queue w)\<rparr>, [])"
| "exec (EnqueueFile now filePath) w =
     (w\<lparr>queue := fst (enqueueFile now filePath (queue w))\<rparr>,
      snd (enqueueFile now filePath (queue w)))"
| "exec CancelPending w = (w\<lparr>queue := cancelPending (queue w)\<rparr>, [])"
| "exec ResetQueue w = (w\<lparr>queue := resetQueue (queue w)\<rparr>, [])"
| "exec (FlushTimerFires now) w =
     (case flushTimer (queue w) of
        None \<Rightarrow> (w, [])
      | Some due \<Rightarrow> if due \<le> now then (flushTimerFired now w, []) else (w, []))"
| "exec CountdownTicks w =
     (w\<lparr>queue := fst (countdownTick (queue w))\<rparr>, snd (countdownTick (queue w)))"
| "exec (DiffSettles k result) w = diffSettled k result w"

text \<open>
  What an observer records of a run: every file handed to the batch-ready callback, with the
  fingerprint of the diff that the flush has fetched for it (none when the fetch failed), and
  every clearing of the fingerprint map.
\<close>

datatype dispatch = Dispatched string "string option" | FingerprintsCleared

definition fingerprintOf :: "(string \<Rightarrow> diff_result) \<Rightarrow> string \<Rightarrow> string option" where
  "fingerprintOf g f =
     (case g f of
        DiffError \<Rightarrow> None
      | DiffValue None \<Rightarrow> None
      | DiffValue (Some d) \<Rightarrow> Some (hashDiff d))"

fun batchFiles :: "event list \<Rightarrow> string list" where
  "batchFiles [] = []"
| "batchFiles (BatchReadyEv b # es) = b @ batchFiles es"
| "batchFiles (CountdownEv n # es) = batchFiles es"
| "batchFiles (BatchEmptyEv # es) = batchFiles es"

text \<open>The fetches of the \<open>k\<close>-th waiting flush, with the one that settles now.\<close>

definition fetchedWith :: "nat \<Rightarrow> diff_result \<Rightarrow> world \<Rightarrow> string \<Rightarrow> diff_result" where
  "fetchedWith k result w =
     (if k < length (flushes w)
      then (case candidates (flushes w ! k) of
              [] \<Rightarrow> fetched (flushes w ! k)
            | filePath # rest \<Rightarrow> (fetched (flushes w ! k))(filePath := result))
      else (\<lambda>f. DiffValue None))"

fun logOf :: "queue_op \<Rightarrow> world \<Rightarrow> dispatch list" where
  "logOf ResetQueue w = [FingerprintsCleared]"
| "logOf (DiffSettles k result) w =
     map (\<lambda>f. Dispatched f (fingerprintOf (fetchedWith k result w) f))
       (batchFiles (snd (diffSettled k result w)))"
| "logOf (FlushTimerFires now) w = []"
| "logOf (Configure cfg) w = []"
| "logOf SetOnBatchReady w = []"
| "logOf SetOnCountdown w = []"
| "logOf SetOnBatchEmpty w = []"
| "logOf (EnqueueFile now filePath) w = []"
| "logOf CancelPending w = []"
| "logOf CountdownTicks w = []"

fun run :: "world \<Rightarrow> queue_op list \<Rightarrow> world \<times> dispatch list" where
  "run w [] = (w, [])"
| "run w (op # ops) =
     (case run (fst (exec op w)) ops of
        (w', ds) \<Rightarrow> (w', logOf op w @ ds))"

text \<open>
  The sequences of operations in which a flush starts, and \<^verbatim>\<open>resetQueue\<close> is called, only
  while no flush waits for a fetch: whenever a flush waits, the timer callback adds no other
  one.
\<close>

fun undisturbed :: "queue_op \<Rightarrow> world \<Rightarrow> bool" where
  "undisturbed (FlushTimerFires now) w =
     (flushes w = [] \<or> flushes (fst (exec (FlushTimerFires now) w)) = flushes w)"
| "undisturbed ResetQueue w = (flushes w = [])"
| "undisturbed (DiffSettles k result) w = True"
| "undisturbed (Configure cfg) w = True"
| "undisturbed SetOnBatchReady w = True"
| "undisturbed SetOnCountdown w = True"
| "undisturbed SetOnBatchEmpty w = True"
| "undisturbed (EnqueueFile now filePath) w = True"
| "undisturbed CancelPending w = True"
| "undisturbed CountdownTicks w = True"

fun sequential :: "world \<Rightarrow> queue_op list \<Rightarrow> bool" where
  "sequential w [] = True"
| "sequential w (op # ops) = (undisturbed op w \<and> sequential (fst (exec op w)) ops)"

text \<open>
  The fingerprint of the last dispatch of each file according to a log, and the logs in which
  no dispatch repeats the fingerprint of the file's last dispatch.
\<close>

fun track :: "(string \<rightharpoonup> string) \<Rightarrow> dispatch \<Rightarrow> (string \<rightharpoonup> string)" where
  "track m (Dispatched f (Some h)) = m(f \<mapsto> h)"
| "track m (Dispatched f None) = m"
| "track m FingerprintsCleared = Map.empty"

fun repeats :: "(string \<rightharpoonup> string) \<Rightarrow> dispatch \<Rightarrow> bool" where
  "repeats m (Dispatched f (Some h)) = (m f = Some h)"
| "repeats m (Dispatched f None) = False"
| "repeats m FingerprintsCleared = False"

fun okLog :: "(string \<rightharpoonup> string) \<Rightarrow> dispatch list \<Rightarrow> bool" where
  "okLog m [] = True"
| "okLog m (e # es) = (\<not> repeats m e \<and> okLog (track m e) es)"

text \<open>
  The relation that every operation of such a sequence keeps between the world and the
  fingerprints \<open>m\<close> of the dispatches observed since the map was last cleared: the map holds
  them, but for the files that the waiting flush has put into \<^verbatim>\<open>toReview\<close> with a new
  fingerprint, which it has stored already and will dispatch at its end.
\<close>

definition frameAgrees ::
  "(string \<rightharpoonup> string) \<Rightarrow> (string \<Rightarrow> diff_result) \<Rightarrow> string list \<Rightarrow> (string \<rightharpoonup> string) \<Rightarrow> bool" where
  "frameAgrees hashes g tr m \<longleftrightarrow>
     (\<forall>f h. m f = Some h \<longrightarrow> (f \<in> set tr \<and> fingerprintOf g f \<noteq> None) \<or> hashes f = Some h)
     \<and> (\<forall>f h. f \<in> set tr \<longrightarrow> fingerprintOf g f = Some h \<longrightarrow> hashes f = Some h \<and> m f \<noteq> Some h)"

definition agrees :: "world \<Rightarrow> (string \<rightharpoonup> string) \<Rightarrow> bool" where
  "agrees w m \<longleftrightarrow>
     (\<forall>f h. m f = Some h \<longrightarrow> onBatchReady (queue w))
     \<and> (case flushes w of
          [] \<Rightarrow> frameAgrees (reviewedDiffHash (queue w)) (\<lambda>f. DiffValue None) [] m
        | frame # others \<Rightarrow>
            others = [] \<and> candidates frame \<noteq> []
            \<and> distinct (candidates frame @ toReview frame)
            \<and> frameAgrees (reviewedDiffHash (queue w)) (fetched frame) (toReview frame) m)"

text \<open>The countdown callback invocations of a timed trace: time and seconds remaining.\<close>

fun countdowns :: "(int \<times> event) list \<Rightarrow> (int \<times> int) list" where
  "countdowns [] = []"
| "countdowns ((t, CountdownEv n) # es) = (t, n) # countdowns es"
| "countdowns ((t, BatchReadyEv b) # es) = countdowns es"
| "countdowns ((t, BatchEmptyEv) # es) = countdowns es"

subsection \<open>Example inputs\<close>

definition exampleDiffs :: "string \<Rightarrow> diff_result" where
  "exampleDiffs f =
     (if f = ''a.ts'' then DiffValue (Some ''diff-a'')
      else if f = ''b.ts'' then DiffValue (Some ''diff-b'')
      else DiffValue None)"

definition exampleQueue :: queue_state where
  "exampleQueue = initialQueue\<lparr>minIntervalMs := 1000, pendingFiles := Dlist [''a.ts'', ''b.ts''],
     onBatchReady := True, onBatchEmpty := True\<rparr>"

text \<open>
  The scenario of the spec, continued: two files are enqueued and flushed after the interval;
  the first one comes back with a changed diff, and then with the first diff again.
\<close>

definition armedWorld :: world where
  "armedWorld =
     \<lparr>queue = initialQueue\<lparr>minIntervalMs := 1000, onBatchReady := True, onBatchEmpty := True\<rparr>,
      flushes = []\<rparr>"

definition exampleOps :: "queue_op list" where
  "exampleOps =
     [EnqueueFile 0 ''a.ts'', EnqueueFile 0 ''b.ts'', FlushTimerFires 1000,
      DiffSettles 0 (DiffValue (Some ''diff-a'')), DiffSettles 0 (DiffValue (Some ''diff-b'')),
      EnqueueFile 1001 ''a.ts'', FlushTimerFires 2000,
      DiffSettles 0 (DiffValue (Some ''diff-a2'')),
      EnqueueFile 2002 ''a.ts'', FlushTimerFires 3000,
      DiffSettles 0 (DiffValue (Some ''diff-a''))]"

text \<open>
  A second flush starts while the first one waits for the diff of its second file, and ends
  before it.
\<close>

definition eagerWorld :: world where
  "eagerWorld = \<lparr>queue = initialQueue\<lparr>minIntervalMs := 0, onBatchReady := True\<rparr>, flushes = []\<rparr>"

definition overlappingOps :: "queue_op list" where
  "overlappingOps =
     [EnqueueFile 5 ''a.ts'', EnqueueFile 5 ''b.ts'', FlushTimerFires 5,
      DiffSettles 0 (DiffValue (Some ''diff-a'')),
      EnqueueFile 6 ''a.ts'', FlushTimerFires 6,
      DiffSettles 1 (DiffValue (Some ''diff-a2'')),
      DiffSettles 0 (DiffValue None),
      EnqueueFile 7 ''a.ts'', FlushTimerFires 7,
      DiffSettles 0 (DiffValue (Some ''diff-a''))]"

text \<open>The session is armed again while a flush waits for the diff of its second file.\<close>

definition rearmOps :: "queue_op list" where
  "rearmOps =
     [EnqueueFile 5 ''a.ts'', EnqueueFile 5 ''b.ts'', FlushTimerFires 5,
      DiffSettles 0 (DiffValue (Some ''diff-a'')),
      ResetQueue, Configure (Some 0), SetOnBatchReady,
      DiffSettles 0 (DiffValue None),
      EnqueueFile 6 ''a.ts'', FlushTimerFires 6,
      DiffSettles 0 (DiffValue (Some ''diff-a''))]"

text \<open>
  A queue with a batch-ready callback and no batch-empty callback, holding one file that has
  no modifications.
\<close>

definition cleanDiffs :: "string \<Rightarrow> diff_result" where
  "cleanDiffs f = DiffValue (Some [])"

definition cleanFileQueue :: queue_state where
  "cleanFileQueue = initialQueue\<lparr>minIntervalMs := 0, pendingFiles := Dlist [''src/clean.ts''],
     onBatchReady := True\<rparr>"




section \<open>Review engine (reviewEngine.ts)\<close>

subsection \<open>Values\<close>

text \<open>A thrown \<^verbatim>\<open>Error\<close>, with its message.\<close>

datatype error = Error string

text \<open>
  What \<^verbatim>\<open>JSON.parse\<close> returns. A number is a finite real (\<^verbatim>\<open>NaN\<close> and the infinities
  are not represented); an object is the list of its properties.
\<close>

datatype json =
    JNull
  | JBool bool
  | JNumber real
  | JString string
  | JArray "json list"
  | JObject "(string \<times> json) list"

record review_issue =
  tier :: string
  "file" :: string
  line :: int
  title :: string
  explanation :: string

text \<open>
  The parts of a chat message and the chunks of a response stream:
  \<^verbatim>\<open>LanguageModelTextPart\<close>, \<^verbatim>\<open>LanguageModelToolCallPart\<close> (name, callId, input),
  \<^verbatim>\<open>LanguageModelToolResultPart\<close> (callId, content), and any other chunk.
\<close>

datatype part =
    TextPart string
  | ToolCallPart string string "(string \<times> string) list"
  | ToolResultPart string "part list"
  | OtherPart

datatype message = User "part list" | Assistant "part list"

text \<open>
  A language model: what \<^verbatim>\<open>sendRequest\<close> answers to the messages it is sent, given the
  number of requests it has answered before in this loop. The request fails (\<open>Inl\<close>) or the
  stream delivers a list of chunks.
\<close>

type_synonym model = "nat \<Rightarrow> message list \<Rightarrow> error + part list"

text \<open>
  The calls of \<^verbatim>\<open>log\<close> in the module: in \<^verbatim>\<open>reviewFile\<close> (no diff, reviewing), in the handler
  of \<^verbatim>\<open>reviewFiles\<close>, in \<^verbatim>\<open>callLLM\<close> (family not available, fallback model, model), in
  \<^verbatim>\<open>runAgentLoop\<close> (done and tool calls of iteration \<open>i\<close>, result of the \<open>k\<close>-th tool call of
  iteration \<open>i\<close>, ceiling reached) and in \<^verbatim>\<open>parseResponse\<close> (no array, parse failure).
  \<^verbatim>\<open>log(message)\<close> is \<^verbatim>\<open>outputChannel?.appendLine(message)\<close>: it does nothing when no channel
  is configured, and with a channel the call returns or throws (a channel that has been closed
  throws). The text of the line is not represented.
\<close>

datatype log_site =
    NoDiffLine
  | ReviewingLine
  | ReviewErrorLine
  | NoFamilyModelLine
  | FallbackModelLine
  | ModelLine
  | AgentDoneLine nat
  | AgentIterationLine nat
  | ToolResultLine nat nat
  | MaxIterationsLine
  | NoArrayLine
  | ParseFailedLine

text \<open>
  The collaborators of one file review: the two git queries, the module variable
  \<^verbatim>\<open>maxDiffChars\<close>, the imported \<^verbatim>\<open>truncateText\<close>, the answers of \<^verbatim>\<open>selectChatModels\<close> for
  the configured family and for any Copilot model, the result of \<^verbatim>\<open>buildSystemPrompt\<close> (which
  catches whatever is thrown inside it), the tool executor, \<^verbatim>\<open>JSON.parse\<close> (\<open>None\<close> when it
  throws), the value of \<^verbatim>\<open>isCancellationRequested\<close> read at the top of each iteration, and the
  module variable \<^verbatim>\<open>outputChannel\<close>: \<open>None\<close> when it is \<^verbatim>\<open>undefined\<close>, otherwise what
  \<^verbatim>\<open>appendLine\<close> throws at each call of \<^verbatim>\<open>log\<close>, if it throws.

  \<open>executeToolCall env i k name input\<close> is the outcome of \<^verbatim>\<open>await executeToolCall(name, input)\<close>
  for the \<open>k\<close>-th tool call of iteration \<open>i\<close>: the result string, or the error the promise
  rejects with (in \<^verbatim>\<open>workspaceTools.ts\<close>, \<^verbatim>\<open>searchCode\<close> awaits \<^verbatim>\<open>findFiles\<close> outside any
  \<^verbatim>\<open>try\<close>).
\<close>

record review_env =
  fileDiff :: "string \<Rightarrow> error + string option"
  recentHistory :: "string \<Rightarrow> error + string"
  maxDiffChars :: nat
  textTruncate :: "string \<Rightarrow> nat \<Rightarrow> string"
  familyModels :: "model list"
  copilotModels :: "model list"
  systemPrompt :: string
  executeToolCall :: "nat \<Rightarrow> nat \<Rightarrow> string \<Rightarrow> (string \<times> string) list \<Rightarrow> error + string"
  jsonParse :: "string \<Rightarrow> json option"
  cancellationRequested :: "nat \<Rightarrow> bool"
  outputChannel :: "(log_site \<Rightarrow> error option) option"

text \<open>\<open>logLine env site\<close> is what the call of \<^verbatim>\<open>log\<close> at \<open>site\<close> throws, if it throws.\<close>

definition logLine :: "review_env \<Rightarrow> log_site \<Rightarrow> error option" where
  "logLine env site =
     (case outputChannel env of None \<Rightarrow> None | Some appendLine \<Rightarrow> appendLine site)"

definition MAX_AGENT_ITERATIONS :: nat where
  "MAX_AGENT_ITERATIONS = 10"

subsection \<open>parseResponse\<close>

text \<open>The characters below 256 that \<^verbatim>\<open>trim\<close> removes and \<^verbatim>\<open>\s\<close> matches.\<close>

definition isSpace :: "char \<Rightarrow> bool" where
  "isSpace c = (of_char c \<in> set [9, 10, 11, 12, 13, 32, 160 :: nat])"

definition trim :: "string \<Rightarrow> string" where
  "trim s = rev (dropWhile isSpace (rev (dropWhile isSpace s)))"

text \<open>The text before the first closing fence, if there is one.\<close>

fun beforeFence :: "string \<Rightarrow> string option" where
  "beforeFence [] = None"
| "beforeFence (c # cs) =
     (if take 3 (c # cs) = ''```'' then Some []
      else map_option ((#) c) (beforeFence cs))"

text \<open>
  Group 1 of the first match of \<^verbatim>\<open>/```(?:json)?\s*([\s\S]*?)```/\<close>: at the first opening
  fence that has a closing fence behind its optional \<^verbatim>\<open>json\<close> tag and white space, the text
  between them.
\<close>

fun fenceMatch :: "string \<Rightarrow> string option" where
  "fenceMatch [] = None"
| "fenceMatch (c # cs) =
     (if take 3 (c # cs) = ''```''
      then (let rest = drop 3 (c # cs);
                untagged = (if take 4 rest = ''json'' then drop 4 rest else rest)
            in case beforeFence (dropWhile isSpace untagged) of
                 Some inner \<Rightarrow> Some inner
               | None \<Rightarrow> fenceMatch cs)
      else fenceMatch cs)"

text \<open>The match of \<^verbatim>\<open>/\[[\s\S]*\]/\<close>: from the first opening bracket to the last closing one.\<close>

definition arrayMatch :: "string \<Rightarrow> string option" where
  "arrayMatch text =
     (let fromOpen = dropWhile (\<lambda>c. c \<noteq> CHR ''['') text;
          upToClose = rev (dropWhile (\<lambda>c. c \<noteq> CHR '']'') (rev fromOpen))
      in if upToClose = [] then None else Some upToClose)"

definition property :: "json \<Rightarrow> string \<Rightarrow> json option" where
  "property obj name = (case obj of JObject item \<Rightarrow> map_of item name | _ \<Rightarrow> None)"

definition isString :: "json option \<Rightarrow> bool" where
  "isString v = (case v of Some (JString s) \<Rightarrow> True | _ \<Rightarrow> False)"

definition isNumber :: "json option \<Rightarrow> bool" where
  "isNumber v = (case v of Some (JNumber n) \<Rightarrow> True | _ \<Rightarrow> False)"

text \<open>The casts \<^verbatim>\<open>as string\<close> and \<^verbatim>\<open>as number\<close>, used behind the checks of \<open>isValidIssue\<close>.\<close>

definition asString :: "json option \<Rightarrow> string" where
  "asString v = (case v of Some (JString s) \<Rightarrow> s | _ \<Rightarrow> [])"

definition asNumber :: "json option \<Rightarrow> real" where
  "asNumber v = (case v of Some (JNumber n) \<Rightarrow> n | _ \<Rightarrow> 0)"

definition isValidIssue :: "json \<Rightarrow> bool" where
  "isValidIssue obj =
     (case obj of
        JObject item \<Rightarrow>
          isString (property obj ''tier'')
          \<and> asString (property obj ''tier'') \<in> set [''high'', ''medium'', ''low'']
          \<and> isNumber (property obj ''line'')
          \<and> isString (property obj ''title'')
          \<and> isString (property obj ''explanation'')
      | _ \<Rightarrow> False)"

text \<open>\<^verbatim>\<open>Math.round\<close>: the nearest integer, a tie going up.\<close>

definition mathRound :: "real \<Rightarrow> int" where
  "mathRound x = \<lfloor>x + 1 / 2\<rfloor>"

definition normalizeIssue :: "(string \<Rightarrow> nat \<Rightarrow> string) \<Rightarrow> json \<Rightarrow> review_issue" where
  "normalizeIssue truncateText obj =
     \<lparr>tier = asString (property obj ''tier''),
      file = (if isString (property obj ''file'') then asString (property obj ''file'') else []),
      line = max 1 (mathRound (asNumber (property obj ''line''))),
      title = truncateText (asString (property obj ''title'')) 80,
      explanation = truncateText (asString (property obj ''explanation'')) 500\<rparr>"

text \<open>
  \<open>writeLog\<close> gives what the two calls of \<^verbatim>\<open>log\<close> throw. The first one is outside the \<^verbatim>\<open>try\<close>
  block and the second one is in its \<^verbatim>\<open>catch\<close> handler, so an error of either leaves
  \<^verbatim>\<open>parseResponse\<close>.
\<close>

definition parseResponse ::
  "(string \<Rightarrow> nat \<Rightarrow> string) \<Rightarrow> (string \<Rightarrow> json option) \<Rightarrow> (log_site \<Rightarrow> error option)
     \<Rightarrow> string \<Rightarrow> error + review_issue list" where
  "parseResponse truncateText parse writeLog responseText =
     (let text = trim responseText;
          text = (case fenceMatch text of Some inner \<Rightarrow> trim inner | None \<Rightarrow> text)
      in case arrayMatch text of
           None \<Rightarrow> (case writeLog NoArrayLine of Some e \<Rightarrow> Inl e | None \<Rightarrow> Inr [])
         | Some matched \<Rightarrow>
             (case parse matched of
                None \<Rightarrow> (case writeLog ParseFailedLine of Some e \<Rightarrow> Inl e | None \<Rightarrow> Inr [])
              | Some (JArray parsed) \<Rightarrow>
                  Inr (map (normalizeIssue truncateText) (filter isValidIssue parsed))
              | Some other \<Rightarrow> Inr []))"

text \<open>
  Modelled from the spec: \<^verbatim>\<open>truncateText\<close> of \<^verbatim>\<open>../utils\<close>, which is not among the sources.
  The spec has a title \<^emph>\<open>truncated to 80 characters\<close> and an explanation \<^emph>\<open>truncated to 500
  characters\<close>: the text is cut to its first \<open>maxLength\<close> characters when it is longer.
\<close>

definition truncateText :: "string \<Rightarrow> nat \<Rightarrow> string" where
  "truncateText text maxLength = (if length text \<le> maxLength then text else take maxLength text)"

subsection \<open>The agent loop\<close>

definition isToolCall :: "part \<Rightarrow> bool" where
  "isToolCall p = (case p of ToolCallPart name callId input \<Rightarrow> True | _ \<Rightarrow> False)"

definition isText :: "part \<Rightarrow> bool" where
  "isText p = (case p of TextPart v \<Rightarrow> True | _ \<Rightarrow> False)"

definition partValue :: "part \<Rightarrow> string" where
  "partValue p = (case p of TextPart v \<Rightarrow> v | _ \<Rightarrow> [])"

text \<open>The call of \<^verbatim>\<open>executeToolCall\<close> that one requested tool call leads to.\<close>

definition toolRun :: "part \<Rightarrow> string \<times> (string \<times> string) list" where
  "toolRun p = (case p of ToolCallPart name callId input \<Rightarrow> (name, input) | _ \<Rightarrow> ([], []))"

text \<open>
  The conversation, the number of requests sent to the model and the calls made to
  \<^verbatim>\<open>executeToolCall\<close> so far.
\<close>

record loop_state =
  messages :: "message list"
  requests :: nat
  toolRuns :: "(string \<times> (string \<times> string) list) list"

text \<open>
  The loop over \<^verbatim>\<open>toolCallParts\<close> in iteration \<open>iteration\<close>, from the \<open>k\<close>-th tool call on, with
  the results collected in \<^verbatim>\<open>toolResults\<close>. Nothing catches what \<^verbatim>\<open>executeToolCall\<close> or
  \<^verbatim>\<open>log\<close> throws: the loop and \<^verbatim>\<open>runAgentLoop\<close> end with that error.
\<close>

fun executeTools ::
  "review_env \<Rightarrow> nat \<Rightarrow> nat \<Rightarrow> part list \<Rightarrow> part list \<Rightarrow> loop_state
     \<Rightarrow> (error + part list) \<times> loop_state" where
  "executeTools env iteration k [] toolResults st = (Inr toolResults, st)"
| "executeTools env iteration k (toolCall # rest) toolResults st =
     (case toolCall of
        ToolCallPart name callId input \<Rightarrow>
          (let st1 = st\<lparr>toolRuns := toolRuns st @ [(name, input)]\<rparr>
           in case executeToolCall env iteration k name input of
                Inl e \<Rightarrow> (Inl e, st1)
              | Inr result \<Rightarrow>
                  (case logLine env (ToolResultLine iteration k) of
                     Some e \<Rightarrow> (Inl e, st1)
                   | None \<Rightarrow>
                       executeTools env iteration (k + 1) rest
                         (toolResults @ [ToolResultPart callId [TextPart result]]) st1))
      | other \<Rightarrow> executeTools env iteration (k + 1) rest toolResults st)"

text \<open>The statements behind the loop, reached at the ceiling and by \<^verbatim>\<open>break\<close>.\<close>

definition afterLoop :: "review_env \<Rightarrow> loop_state \<Rightarrow> (error + review_issue list) \<times> loop_state" where
  "afterLoop env st =
     (case logLine env MaxIterationsLine of Some e \<Rightarrow> (Inl e, st) | None \<Rightarrow> (Inr [], st))"

function agentLoopFrom ::
  "review_env \<Rightarrow> model \<Rightarrow> nat \<Rightarrow> loop_state \<Rightarrow> (error + review_issue list) \<times> loop_state" where
  "agentLoopFrom env model iteration st =
     (if iteration < MAX_AGENT_ITERATIONS
      then
        (if cancellationRequested env iteration then afterLoop env st
         else
           (case model (requests st) (messages st) of
              Inl e \<Rightarrow> (Inl e, st\<lparr>requests := requests st + 1\<rparr>)
            | Inr chunks \<Rightarrow>
                (let textParts = filter isText chunks;
                     toolCallParts = filter isToolCall chunks;
                     st1 = st\<lparr>requests := requests st + 1\<rparr>
                 in if length toolCallParts = 0
                    then
                      (case logLine env (AgentDoneLine iteration) of
                         Some e \<Rightarrow> (Inl e, st1)
                       | None \<Rightarrow>
                           (parseResponse (textTruncate env) (jsonParse env) (logLine env)
                              (concat (map partValue textParts)), st1))
                    else
                      (case logLine env (AgentIterationLine iteration) of
                         Some e \<Rightarrow> (Inl e, st1)
                       | None \<Rightarrow>
                           (case executeTools env iteration 0 toolCallParts []
                                   (st1\<lparr>messages := messages st1
                                          @ [Assistant (textParts @ toolCallParts)]\<rparr>) of
                              (Inl e, st2) \<Rightarrow> (Inl e, st2)
                            | (Inr toolResults, st2) \<Rightarrow>
                                agentLoopFrom env model (iteration + 1)
                                  (st2\<lparr>messages := messages st2 @ [User toolResults]\<rparr>))))))
      else afterLoop env st)"
  by pat_completeness auto
termination
  by (relation "measure (\<lambda>(env, model, iteration, st). MAX_AGENT_ITERATIONS - iteration)") auto

declare agentLoopFrom.simps [simp del]

definition openingState :: "review_env \<Rightarrow> string \<Rightarrow> loop_state" where
  "openingState env userPrompt =
     \<lparr>messages = [User [TextPart (systemPrompt env)], User [TextPart userPrompt]],
      requests = 0, toolRuns = []\<rparr>"

definition runAgentLoop ::
  "review_env \<Rightarrow> model \<Rightarrow> string \<Rightarrow> (error + review_issue list) \<times> loop_state" where
  "runAgentLoop env model userPrompt = agentLoopFrom env model 0 (openingState env userPrompt)"

text \<open>
  The words of the spec for an iteration whose response holds tool calls: \<^emph>\<open>append an assistant
  turn (the text + tool-call requests as issued) to the conversation; execute every requested
  tool (sequentially, in request order); append a single user turn carrying all tool results,
  each tagged with its originating call identifier\<close>. \<open>toolTurns env model userPrompt n\<close> is the
  state these words give after \<open>n\<close> such iterations, for comparison with the loop.
\<close>

definition toolResultOf :: "review_env \<Rightarrow> nat \<Rightarrow> nat \<times> part \<Rightarrow> part" where
  "toolResultOf env iteration kp =
     (case kp of
        (k, ToolCallPart name callId input) \<Rightarrow>
          (case executeToolCall env iteration k name input of
             Inr result \<Rightarrow> ToolResultPart callId [TextPart result]
           | Inl e \<Rightarrow> OtherPart)
      | (k, other) \<Rightarrow> OtherPart)"

fun toolTurns :: "review_env \<Rightarrow> model \<Rightarrow> string \<Rightarrow> nat \<Rightarrow> loop_state" where
  "toolTurns env model userPrompt 0 = openingState env userPrompt"
| "toolTurns env model userPrompt (Suc n) =
     (let st = toolTurns env model userPrompt n
      in case model n (messages st) of
           Inl e \<Rightarrow> st
         | Inr chunks \<Rightarrow>
             \<lparr>messages = messages st
                @ [Assistant (filter isText chunks @ filter isToolCall chunks),
                   User (map (toolResultOf env n) (enumerate 0 (filter isToolCall chunks)))],
              requests = Suc n,
              toolRuns = toolRuns st @ map toolRun (filter isToolCall chunks)\<rparr>)"

subsection \<open>reviewFile and reviewFiles\<close>

definition noModelsError :: error where
  "noModelsError = Error ''No Copilot models available. Ensure GitHub Copilot is installed and active.''"

definition callLLM :: "review_env \<Rightarrow> string \<Rightarrow> error + review_issue list" where
  "callLLM env userPrompt =
     (case familyModels env of
        [] \<Rightarrow>
          (case logLine env NoFamilyModelLine of
             Some e \<Rightarrow> Inl e
           | None \<Rightarrow>
               (case copilotModels env of
                  [] \<Rightarrow> Inl noModelsError
                | fallback # others \<Rightarrow>
                    (case logLine env FallbackModelLine of
                       Some e \<Rightarrow> Inl e
                     | None \<Rightarrow> fst (runAgentLoop env fallback userPrompt))))
      | first # others \<Rightarrow>
          (case logLine env ModelLine of
             Some e \<Rightarrow> Inl e
           | None \<Rightarrow> fst (runAgentLoop env first userPrompt)))"

definition newline :: string where
  "newline = [CHR 0x0A]"

definition buildUserPrompt :: "string \<Rightarrow> string \<Rightarrow> string \<Rightarrow> string" where
  "buildUserPrompt filePath diff history =
     ''Review this file change for risks that a human developer must verify.'' @ newline @ newline
     @ ''File: '' @ filePath @ newline @ newline
     @ (if history \<noteq> []
        then ''Recent git history for this file:'' @ newline @ history @ newline @ newline
        else [])
     @ ''Diff:'' @ newline @ ''```'' @ newline @ diff @ newline @ ''```'' @ newline @ newline
     @ ''Respond with a JSON array of issues. If no issues, respond with [].''"

definition reviewFile :: "review_env \<Rightarrow> string \<Rightarrow> error + review_issue list" where
  "reviewFile env filePath =
     (case fileDiff env filePath of
        Inl e \<Rightarrow> Inl e
      | Inr None \<Rightarrow> (case logLine env NoDiffLine of Some e \<Rightarrow> Inl e | None \<Rightarrow> Inr [])
      | Inr (Some diff) \<Rightarrow>
          if diff = []
          then (case logLine env NoDiffLine of Some e \<Rightarrow> Inl e | None \<Rightarrow> Inr [])
          else
            (case recentHistory env filePath of
               Inl e \<Rightarrow> Inl e
             | Inr history \<Rightarrow>
                 (let truncatedDiff = textTruncate env diff (maxDiffChars env);
                      userPrompt = buildUserPrompt filePath truncatedDiff history
                  in case logLine env ReviewingLine of
                       Some e \<Rightarrow> Inl e
                     | None \<Rightarrow>
                         (case callLLM env userPrompt of
                            Inl e \<Rightarrow> Inl e
                          | Inr issues \<Rightarrow> Inr (map (\<lambda>issue. issue\<lparr>file := filePath\<rparr>) issues)))))"

text \<open>
  The loop of \<^verbatim>\<open>reviewFiles\<close> from the file at position \<open>i\<close> on: \<open>envAt i\<close> are the
  collaborators as they answer during the review of that file and in the handler behind it,
  and \<open>stopBefore i\<close> is the value of \<^verbatim>\<open>token?.isCancellationRequested\<close> read before it.
  \<open>onProgress\<close> is \<open>None\<close> when no callback is passed; otherwise it gives what the callback
  throws when it is called for the file at position \<open>i\<close>, if it throws. The \<^verbatim>\<open>try\<close> block holds
  the review of the file and the call of the callback; its handler only calls \<^verbatim>\<open>log\<close>, and
  nothing catches what that call throws. The result is \<^verbatim>\<open>allIssues\<close> and the calls made to the
  callback.
\<close>

fun reviewFilesFrom ::
  "(nat \<Rightarrow> review_env) \<Rightarrow> (nat \<Rightarrow> bool) \<Rightarrow> (nat \<Rightarrow> error option) option \<Rightarrow> nat
     \<Rightarrow> string list \<Rightarrow> review_issue list \<times> (review_issue list \<times> string) list
     \<Rightarrow> error + review_issue list \<times> (review_issue list \<times> string) list" where
  "reviewFilesFrom envAt stopBefore onProgress i [] acc = Inr acc"
| "reviewFilesFrom envAt stopBefore onProgress i (filePath # rest) acc =
     (if stopBefore i then Inr acc
      else
        (case reviewFile (envAt i) filePath of
           Inr fileIssues \<Rightarrow>
             (let allIssues = fst acc @ fileIssues
              in case onProgress of
                   None \<Rightarrow>
                     reviewFilesFrom envAt stopBefore onProgress (i + 1) rest (allIssues, snd acc)
                 | Some callback \<Rightarrow>
                     (case callback i of
                        None \<Rightarrow>
                          reviewFilesFrom envAt stopBefore onProgress (i + 1) rest
                            (allIssues, snd acc @ [(allIssues, filePath)])
                      | Some thrown \<Rightarrow>
                          (case logLine (envAt i) ReviewErrorLine of
                             Some e \<Rightarrow> Inl e
                           | None \<Rightarrow>
                               reviewFilesFrom envAt stopBefore onProgress (i + 1) rest
                                 (allIssues, snd acc @ [(allIssues, filePath)]))))
         | Inl thrown \<Rightarrow>
             (case logLine (envAt i) ReviewErrorLine of
                Some e \<Rightarrow> Inl e
              | None \<Rightarrow> reviewFilesFrom envAt stopBefore onProgress (i + 1) rest acc)))"

definition reviewFiles ::
  "(nat \<Rightarrow> review_env) \<Rightarrow> (nat \<Rightarrow> bool) \<Rightarrow> (nat \<Rightarrow> error option) option \<Rightarrow> string list
     \<Rightarrow> error + review_issue list" where
  "reviewFiles envAt stopBefore onProgress filePaths =
     map_sum id fst (reviewFilesFrom envAt stopBefore onProgress 0 filePaths ([], []))"

text \<open>
  Three readings of one round of that loop, used to state what the sweep returns: the issues
  the file at position \<open>i\<close> adds to \<^verbatim>\<open>allIssues\<close>, whether its round ends in the handler, and
  what the handler throws then.
\<close>

definition issuesOfFile :: "(nat \<Rightarrow> review_env) \<Rightarrow> nat \<times> string \<Rightarrow> review_issue list" where
  "issuesOfFile envAt p =
     (case reviewFile (envAt (fst p)) (snd p) of Inl e \<Rightarrow> [] | Inr fileIssues \<Rightarrow> fileIssues)"

definition entersHandler ::
  "(nat \<Rightarrow> review_env) \<Rightarrow> (nat \<Rightarrow> error option) option \<Rightarrow> nat \<times> string \<Rightarrow> bool" where
  "entersHandler envAt onProgress p =
     (case reviewFile (envAt (fst p)) (snd p) of
        Inl e \<Rightarrow> True
      | Inr fileIssues \<Rightarrow>
          (case onProgress of None \<Rightarrow> False | Some callback \<Rightarrow> callback (fst p) \<noteq> None))"

definition handlerThrows ::
  "(nat \<Rightarrow> review_env) \<Rightarrow> (nat \<Rightarrow> error option) option \<Rightarrow> nat \<times> string \<Rightarrow> error option" where
  "handlerThrows envAt onProgress p =
     (if entersHandler envAt onProgress p then logLine (envAt (fst p)) ReviewErrorLine else None)"

subsection \<open>Example inputs of the review engine\<close>

text \<open>
  \<^verbatim>\<open>JSON.stringify\<close> of two issue lists and the values \<^verbatim>\<open>JSON.parse\<close> gives back for these
  texts. The title of the second issue quotes two code fences.
\<close>

definition verdictIssues :: "json list" where
  "verdictIssues =
     [JObject [(''tier'', JString ''medium''), (''file'', JString ''src/auth.ts''),
        (''line'', JNumber 1), (''title'', JString ''Login call suspicious''),
        (''explanation'', JString ''login() called without guard'')]]"

definition verdictText :: string where
  \<open>verdictText = ''[{"tier":"medium","file":"src/auth.ts","line":1,"title":"Login call suspicious","explanation":"login() called without guard"}]''\<close>

definition fencedIssues :: "json list" where
  "fencedIssues =
     [JObject [(''tier'', JString ''low''), (''line'', JNumber 1),
        (''title'', JString ''Use ```sh and ```js fences''),
        (''explanation'', JString ''x'')]]"

definition fencedText :: string where
  \<open>fencedText = ''[{"tier":"low","line":1,"title":"Use ```sh and ```js fences","explanation":"x"}]''\<close>

definition exampleStringify :: "json \<Rightarrow> string" where
  "exampleStringify v =
     (if v = JArray verdictIssues then verdictText
      else if v = JArray fencedIssues then fencedText
      else ''null'')"

definition exampleParse :: "string \<Rightarrow> json option" where
  "exampleParse s =
     (if s = verdictText then Some (JArray verdictIssues)
      else if s = fencedText then Some (JArray fencedIssues)
      else None)"

text \<open>The model stubs of the repository's tests.\<close>

text \<open>
  The model stubs of the repository's tests, and two that ask for \<^verbatim>\<open>searchCode\<close>.
\<close>

definition toolThenVerdict :: model where
  "toolThenVerdict n msgs =
     (if n = 0 then Inr [ToolCallPart ''readFile'' ''call-001'' [(''path'', ''src/utils.ts'')]]
      else Inr [TextPart verdictText])"

definition alwaysToolCall :: model where
  "alwaysToolCall n msgs = Inr [ToolCallPart ''listDirectory'' ''call-x'' [(''path'', ''.'')]]"

definition searchThenVerdict :: model where
  "searchThenVerdict n msgs =
     (if n = 0 then Inr [ToolCallPart ''searchCode'' ''call-001'' [(''query'', ''login'')]]
      else Inr [TextPart verdictText])"

definition alwaysSearch :: model where
  "alwaysSearch n msgs = Inr [ToolCallPart ''searchCode'' ''call-x'' [(''query'', ''login'')]]"

definition neverCancelled :: "nat \<Rightarrow> bool" where
  "neverCancelled i = False"

definition loginSource ::
  "nat \<Rightarrow> nat \<Rightarrow> string \<Rightarrow> (string \<times> string) list \<Rightarrow> error + string" where
  "loginSource i k name input = Inr ''export function login() {}''"

text \<open>A tool executor whose \<^verbatim>\<open>searchCode\<close> rejects, as it does when \<^verbatim>\<open>findFiles\<close> rejects.\<close>

definition failingSearch ::
  "nat \<Rightarrow> nat \<Rightarrow> string \<Rightarrow> (string \<times> string) list \<Rightarrow> error + string" where
  "failingSearch i k name input =
     (if name = ''searchCode'' then Inl (Error ''findFiles failed'')
      else Inr ''export function login() {}'')"

text \<open>
  What the calls of \<^verbatim>\<open>log\<close> throw with no output channel, with an output channel that has
  been closed, and with one that closes before the last line of the agent loop.
\<close>

definition noChannel :: "log_site \<Rightarrow> error option" where
  "noChannel site = None"

definition closedChannel :: "log_site \<Rightarrow> error option" where
  "closedChannel site = Some (Error ''Channel has been closed'')"

definition closingChannel :: "log_site \<Rightarrow> error option" where
  "closingChannel site =
     (if site = MaxIterationsLine then Some (Error ''Channel has been closed'') else None)"

definition authDiff :: "string \<Rightarrow> error + string option" where
  "authDiff filePath = Inr (Some ''+  skipAuth();'')"

definition authHistory :: "string \<Rightarrow> error + string" where
  "authHistory filePath = Inr ''abc123 fix auth''"

definition exampleEnv :: review_env where
  "exampleEnv =
     \<lparr>fileDiff = authDiff, recentHistory = authHistory, maxDiffChars = 15000,
      textTruncate = truncateText, familyModels = [toolThenVerdict], copilotModels = [],
      systemPrompt = ''You are AgentWatch, a risk-focused code reviewer embedded in VS Code.'',
      executeToolCall = loginSource, jsonParse = exampleParse,
      cancellationRequested = neverCancelled, outputChannel = None\<rparr>"

definition noModelEnv :: review_env where
  "noModelEnv = exampleEnv\<lparr>familyModels := [], copilotModels := []\<rparr>"

definition gitError :: "string \<Rightarrow> error + string option" where
  "gitError filePath = Inl (Error ''git error'')"

definition brokenGitEnv :: review_env where
  "brokenGitEnv = exampleEnv\<lparr>fileDiff := gitError\<rparr>"

definition noDiff :: "string \<Rightarrow> error + string option" where
  "noDiff filePath = Inr (Some [])"

definition cleanNoModelEnv :: review_env where
  "cleanNoModelEnv = noModelEnv\<lparr>fileDiff := noDiff\<rparr>"

definition sweepEnv :: "nat \<Rightarrow> review_env" where
  "sweepEnv i = (if i = 0 then noModelEnv else exampleEnv)"

text \<open>Cancellation is requested after the first iteration.\<close>

definition stopRequested :: "nat \<Rightarrow> bool" where
  "stopRequested i = (0 < i)"

definition stoppedEnv :: review_env where
  "stoppedEnv = exampleEnv\<lparr>cancellationRequested := stopRequested\<rparr>"

definition failingSearchEnv :: review_env where
  "failingSearchEnv = exampleEnv\<lparr>executeToolCall := failingSearch\<rparr>"

definition closedChannelEnv :: review_env where
  "closedChannelEnv = exampleEnv\<lparr>outputChannel := Some closedChannel\<rparr>"

definition closingChannelEnv :: review_env where
  "closingChannelEnv = exampleEnv\<lparr>outputChannel := Some closingChannel\<rparr>"

definition closedSweepEnv :: "nat \<Rightarrow> review_env" where
  "closedSweepEnv i = brokenGitEnv\<lparr>outputChannel := Some closedChannel\<rparr>"

section \<open>Properties of the review queue\<close>

subsection \<open>The candidate loop\<close>

lemma list_of_dlist_setAdd:
  "list_of_dlist (setAdd x d) =
     (if x \<in> set (list_of_dlist d) then list_of_dlist d else list_of_dlist d @ [x])"
  by (simp add: setAdd_def Dlist.member_def)

lemma reviewCandidate_other:
  "f \<noteq> c \<Longrightarrow> fst (reviewCandidate g c (m, tr)) f = m f"
  by (auto simp: reviewCandidate_def Let_def split: diff_result.splits option.splits)

lemma reviewCandidate_same:
  "fst (reviewCandidate g c (m, tr)) c = newHash g m c"
  by (auto simp: reviewCandidate_def newHash_def Let_def split: diff_result.splits option.splits)

lemma reviewCandidate_set:
  "set (snd (reviewCandidate g c (m, tr))) = set tr \<union> (if included g m c then {c} else {})"
  by (auto simp: reviewCandidate_def included_def Let_def split: diff_result.splits option.splits)

lemma reviewCandidate_distinct:
  "distinct tr \<Longrightarrow> c \<notin> set tr \<Longrightarrow> distinct (snd (reviewCandidate g c (m, tr)))"
  by (auto simp: reviewCandidate_def Let_def split: diff_result.splits option.splits)






lemma reviewCandidates_distinct:
  "distinct fs \<Longrightarrow> distinct tr \<Longrightarrow> set fs \<inter> set tr = {} \<Longrightarrow>
   distinct (snd (reviewCandidates g fs (m, tr)))"
proof (induction fs arbitrary: m tr)
  case Nil
  then show ?case by simp
next
  case (Cons c fs)
  obtain m' tr' where r: "reviewCandidate g c (m, tr) = (m', tr')"
    by (cases "reviewCandidate g c (m, tr)")
  have d: "distinct tr'"
    using reviewCandidate_distinct[of tr c g m] Cons.prems r by auto
  have "set tr' \<subseteq> set tr \<union> {c}"
    using reviewCandidate_set[of g c m tr] r by (auto split: if_splits)
  then have "set fs \<inter> set tr' = {}"
    using Cons.prems by auto
  then show ?case
    using Cons.IH[of tr' m'] Cons.prems d r by simp
qed

lemma distinct_toReviewOf: "distinct (toReviewOf g s)"
  by (simp add: toReviewOf_def reviewCandidates_distinct)


lemma runFlush_nonempty:
  "Dlist.length (pendingFiles s) \<noteq> 0 \<Longrightarrow>
   runFlush now g s =
     (s\<lparr>pendingFiles := Dlist.empty, lastReviewAt := now,
        reviewedDiffHash :=
          fst (reviewCandidates g (list_of_dlist (pendingFiles s)) (reviewedDiffHash s, []))\<rparr>,
      if toReviewOf g s \<noteq> [] then (if onBatchReady s then [BatchReadyEv (toReviewOf g s)] else [])
      else (if onBatchEmpty s then [BatchEmptyEv] else []))"
  by (simp add: runFlush_def toReviewOf_def Let_def split: prod.splits)

lemma runFlush_empty: "Dlist.length (pendingFiles s) = 0 \<Longrightarrow> runFlush now g s = (s, [])"
  by (simp add: runFlush_def)




subsection \<open>The callbacks of a flush\<close>

text \<open>
  C3, as the code has it. A flush that begins with no pending file invokes no callback and
  changes nothing. A flush that begins with at least one pending file attempts exactly one
  notification: batch-ready, with the duplicate-free list \<^verbatim>\<open>toReview\<close>, when that list is not
  empty, and batch-empty otherwise. The attempted callback is invoked when it is registered
  and skipped when it is not; so at most one callback is invoked, and exactly one when both
  are registered.
\<close>

theorem flush_invokes_one_registered_callback:
  "(Dlist.length (pendingFiles s) = 0 \<longrightarrow> runFlush now g s = (s, []))
   \<and> (Dlist.length (pendingFiles s) \<noteq> 0 \<longrightarrow>
        distinct (toReviewOf g s)
        \<and> snd (runFlush now g s) =
            (if toReviewOf g s \<noteq> []
             then (if onBatchReady s then [BatchReadyEv (toReviewOf g s)] else [])
             else (if onBatchEmpty s then [BatchEmptyEv] else [])))"
  by (simp add: runFlush_empty runFlush_nonempty distinct_toReviewOf)

theorem flush_invokes_one_registered_callback_witness:
  "Dlist.length (pendingFiles exampleQueue) \<noteq> 0
   \<and> onBatchReady exampleQueue \<and> onBatchEmpty exampleQueue
   \<and> distinct (toReviewOf exampleDiffs exampleQueue)
   \<and> snd (runFlush 1000 exampleDiffs exampleQueue) = [BatchReadyEv [''a.ts'', ''b.ts'']]"
  using flush_invokes_one_registered_callback[of exampleQueue 1000 exampleDiffs]
  by (simp add: exampleQueue_def initialQueue_def exampleDiffs_def toReviewOf_def
      reviewCandidate_def Dlist.length_def)

text \<open>
  The claim as stated fails when the callback of the outcome is not registered: the flush
  below begins with one pending file and invokes neither callback.
\<close>

theorem flush_without_registered_callback_counterexample:
  "Dlist.length (pendingFiles cleanFileQueue) = 1
   \<and> snd (runFlush 0 cleanDiffs cleanFileQueue) = []"
  by (simp add: cleanFileQueue_def initialQueue_def cleanDiffs_def runFlush_def
      reviewCandidate_def Dlist.length_def)


subsection \<open>Fingerprints across flushes\<close>

lemma stopCountdown_fields [simp]:
  "countdownInterval (stopCountdown s) = None"
  "flushTimer (stopCountdown s) = flushTimer s"
  "pendingFiles (stopCountdown s) = pendingFiles s"
  "reviewedDiffHash (stopCountdown s) = reviewedDiffHash s"
  "onBatchReady (stopCountdown s) = onBatchReady s"
  "onBatchEmpty (stopCountdown s) = onBatchEmpty s"
  "onCountdown (stopCountdown s) = onCountdown s"
  "minIntervalMs (stopCountdown s) = minIntervalMs s"
  "lastReviewAt (stopCountdown s) = lastReviewAt s"
  by (simp_all add: stopCountdown_def split: option.splits)

lemma okLog_append: "okLog m (xs @ ys) = (okLog m xs \<and> okLog (foldl track m xs) ys)"
  by (induction xs arbitrary: m) simp_all

lemma track_keeps:
  assumes "FingerprintsCleared \<notin> set ys"
    and "\<forall>h'. Dispatched f (Some h') \<in> set ys \<longrightarrow> h' = h"
    and "m f = Some h"
  shows "foldl track m ys f = Some h"
  using assms
proof (induction ys arbitrary: m)
  case Nil
  then show ?case by simp
next
  case (Cons e ys)
  have "track m e f = Some h"
  proof (cases e)
    case (Dispatched f' fp)
    then show ?thesis using Cons.prems by (cases fp) auto
  next
    case FingerprintsCleared
    then show ?thesis using Cons.prems by simp
  qed
  then show ?case using Cons by simp
qed

lemma okLog_no_repeat:
  assumes "okLog m (xs @ Dispatched f (Some h) # ys @ Dispatched f (Some h) # zs)"
  shows "FingerprintsCleared \<in> set ys \<or> (\<exists>h'. h' \<noteq> h \<and> Dispatched f (Some h') \<in> set ys)"
proof (rule ccontr)
  assume n: "\<not> ?thesis"
  let ?m1 = "(foldl track m xs)(f \<mapsto> h)"
  from assms have "okLog ?m1 (ys @ Dispatched f (Some h) # zs)"
    by (simp add: okLog_append)
  then have "foldl track ?m1 ys f \<noteq> Some h"
    by (simp add: okLog_append)
  moreover have "foldl track ?m1 ys f = Some h"
    using n by (intro track_keeps) auto
  ultimately show False by simp
qed

lemma track_batch:
  "foldl track m (map (\<lambda>f. Dispatched f (fingerprintOf g f)) b) f =
     (if f \<in> set b then (case fingerprintOf g f of None \<Rightarrow> m f | Some h \<Rightarrow> Some h) else m f)"
proof (induction b arbitrary: m)
  case Nil
  then show ?case by simp
next
  case (Cons c b)
  show ?case
    by (cases "fingerprintOf g c") (auto simp: Cons.IH split: option.splits)
qed

lemma okLog_batch:
  assumes "distinct b"
    and "\<forall>f\<in>set b. \<forall>h. fingerprintOf g f = Some h \<longrightarrow> m f \<noteq> Some h"
  shows "okLog m (map (\<lambda>f. Dispatched f (fingerprintOf g f)) b)"
  using assms
proof (induction b arbitrary: m)
  case Nil
  then show ?case by simp
next
  case (Cons c b)
  show ?case
  proof (cases "fingerprintOf g c")
    case None
    then show ?thesis using Cons by simp
  next
    case (Some h)
    have "okLog (m(c \<mapsto> h)) (map (\<lambda>f. Dispatched f (fingerprintOf g f)) b)"
      using Cons.prems by (intro Cons.IH) auto
    then show ?thesis using Some Cons.prems by simp
  qed
qed


lemma frameAgrees_empty:
  "frameAgrees hashes g [] m \<longleftrightarrow> (\<forall>f h. m f = Some h \<longrightarrow> hashes f = Some h)"
  by (simp add: frameAgrees_def)

lemma fingerprintOf_other [simp]: "f \<noteq> c \<Longrightarrow> fingerprintOf (g(c := r)) f = fingerprintOf g f"
  by (simp add: fingerprintOf_def)

lemma fingerprintOf_same [simp]: "fingerprintOf (g(c := r)) c = fingerprintOf (\<lambda>f. r) c"
  by (simp add: fingerprintOf_def)

text \<open>One round of the loop keeps the relation.\<close>

lemma frame_step:
  assumes a: "frameAgrees hashes g tr m" and c: "c \<notin> set tr"
  shows "frameAgrees (fst (reviewCandidate (\<lambda>f. r) c (hashes, tr))) (g(c := r))
           (snd (reviewCandidate (\<lambda>f. r) c (hashes, tr))) m"
proof -
  from a have old1: "\<And>f h. m f = Some h \<Longrightarrow>
      (f \<in> set tr \<and> fingerprintOf g f \<noteq> None) \<or> hashes f = Some h"
    and old2: "\<And>f h. f \<in> set tr \<Longrightarrow> fingerprintOf g f = Some h \<Longrightarrow>
      hashes f = Some h \<and> m f \<noteq> Some h"
    by (auto simp: frameAgrees_def)
  have mc: "\<And>h. m c = Some h \<Longrightarrow> hashes c = Some h"
    using old1 c by blast
  let ?hashes' = "fst (reviewCandidate (\<lambda>f. r) c (hashes, tr))"
  let ?tr' = "snd (reviewCandidate (\<lambda>f. r) c (hashes, tr))"
  have other: "\<And>f. f \<noteq> c \<Longrightarrow> ?hashes' f = hashes f"
    by (rule reviewCandidate_other)
  have tr': "set ?tr' = set tr \<union> (if included (\<lambda>f. r) hashes c then {c} else {})"
    by (rule reviewCandidate_set)
  have same: "?hashes' c = newHash (\<lambda>f. r) hashes c"
    by (rule reviewCandidate_same)
  have new1: "(f \<in> set ?tr' \<and> fingerprintOf (g(c := r)) f \<noteq> None) \<or> ?hashes' f = Some h"
    if mf: "m f = Some h" for f h
  proof (cases "f = c")
    case False
    then show ?thesis using old1[OF mf] other tr' by auto
  next
    case True
    with mf have hc: "hashes c = Some h" using mc by simp
    show ?thesis
      using True hc same tr'
      by (auto simp: newHash_def included_def fingerprintOf_def
          split: diff_result.splits option.splits if_splits)
  qed
  have new2: "?hashes' f = Some h \<and> m f \<noteq> Some h"
    if f: "f \<in> set ?tr'" and fp: "fingerprintOf (g(c := r)) f = Some h" for f h
  proof (cases "f = c")
    case False
    then have "f \<in> set tr" using f tr' by (auto split: if_splits)
    then show ?thesis using old2[of f h] fp False other by simp
  next
    case True
    have inc: "included (\<lambda>f. r) hashes c"
      using f tr' True c by (auto split: if_splits)
    have "?hashes' c = Some h" and "hashes c \<noteq> Some h"
      using inc fp True same
      by (auto simp: newHash_def included_def fingerprintOf_def
          split: diff_result.splits option.splits if_splits)
    then show ?thesis using True mc by auto
  qed
  show ?thesis
    unfolding frameAgrees_def using new1 new2 by blast
qed

text \<open>The dispatch at the end of a flush keeps the relation and repeats no fingerprint.\<close>

lemma frame_end:
  assumes a: "frameAgrees hashes g tr m" and d: "distinct tr"
  shows "okLog m (map (\<lambda>f. Dispatched f (fingerprintOf g f)) tr)"
    and "frameAgrees hashes g' [] (foldl track m (map (\<lambda>f. Dispatched f (fingerprintOf g f)) tr))"
proof -
  from a have old1: "\<And>f h. m f = Some h \<Longrightarrow>
      (f \<in> set tr \<and> fingerprintOf g f \<noteq> None) \<or> hashes f = Some h"
    and old2: "\<And>f h. f \<in> set tr \<Longrightarrow> fingerprintOf g f = Some h \<Longrightarrow>
      hashes f = Some h \<and> m f \<noteq> Some h"
    by (auto simp: frameAgrees_def)
  show "okLog m (map (\<lambda>f. Dispatched f (fingerprintOf g f)) tr)"
    using old2 by (intro okLog_batch[OF d]) blast
  show "frameAgrees hashes g' [] (foldl track m (map (\<lambda>f. Dispatched f (fingerprintOf g f)) tr))"
    unfolding frameAgrees_empty
  proof (intro allI impI)
    fix f h
    assume t: "foldl track m (map (\<lambda>f. Dispatched f (fingerprintOf g f)) tr) f = Some h"
    show "hashes f = Some h"
    proof (cases "f \<in> set tr \<and> fingerprintOf g f \<noteq> None")
      case True
      then have "fingerprintOf g f = Some h" using t by (auto simp: track_batch)
      then show ?thesis using old2 True by blast
    next
      case False
      then have "m f = Some h" using t by (auto simp: track_batch split: if_splits)
      then show ?thesis using old1 False by blast
    qed
  qed
qed

lemma scheduleFlush_fields [simp]:
  "reviewedDiffHash (fst (scheduleFlush now s)) = reviewedDiffHash s"
  "onBatchReady (fst (scheduleFlush now s)) = onBatchReady s"
  "pendingFiles (fst (scheduleFlush now s)) = pendingFiles s"
  "minIntervalMs (fst (scheduleFlush now s)) = minIntervalMs s"
  by (simp_all add: scheduleFlush_def Let_def split: option.splits)

lemma countdownTick_fields [simp]:
  "reviewedDiffHash (fst (countdownTick s)) = reviewedDiffHash s"
  "onBatchReady (fst (countdownTick s)) = onBatchReady s"
  "pendingFiles (fst (countdownTick s)) = pendingFiles s"
  "flushTimer (fst (countdownTick s)) = flushTimer s"
  by (simp_all add: countdownTick_def Let_def split: option.splits prod.splits)

lemma cancelPending_fields [simp]:
  "reviewedDiffHash (cancelPending s) = reviewedDiffHash s"
  "onBatchReady (cancelPending s) = onBatchReady s"
  "minIntervalMs (cancelPending s) = minIntervalMs s"
  "pendingFiles (cancelPending s) = Dlist.empty"
  "flushTimer (cancelPending s) = None"
  "countdownInterval (cancelPending s) = None"
  "lastReviewAt (cancelPending s) = lastReviewAt s"
  "onCountdown (cancelPending s) = onCountdown s"
  "onBatchEmpty (cancelPending s) = onBatchEmpty s"
  by (simp_all add: cancelPending_def Let_def split: option.splits)


lemma agrees_queue:
  assumes "agrees w m" and "flushes w' = flushes w"
    and "reviewedDiffHash (queue w') = reviewedDiffHash (queue w)"
    and "onBatchReady (queue w) \<longrightarrow> onBatchReady (queue w')"
  shows "agrees w' m"
  using assms by (auto simp: agrees_def split: list.splits)

lemma startFlush_agrees:
  assumes a: "agrees w m" and idle: "flushes w = []"
  shows "agrees (startFlush now w) m"
proof (cases "Dlist.length (pendingFiles (queue w)) = 0")
  case True
  then show ?thesis using a by (simp add: startFlush_def)
next
  case False
  then have ne: "list_of_dlist (pendingFiles (queue w)) \<noteq> []"
    by (simp add: Dlist.length_def)
  show ?thesis
    using a idle False ne
    by (simp add: startFlush_def agrees_def Let_def frameAgrees_empty)
qed

lemma diffSettled_agrees:
  assumes a: "agrees w m"
  shows "okLog m (logOf (DiffSettles k r) w)
       \<and> agrees (fst (diffSettled k r w)) (foldl track m (logOf (DiffSettles k r) w))"
proof (cases "flushes w")
  case Nil
  then show ?thesis using a by (simp add: diffSettled_def)
next
  case (Cons frame others)
  with a have others: "others = []" and cs: "candidates frame \<noteq> []"
    and dist: "distinct (candidates frame @ toReview frame)"
    and fa: "frameAgrees (reviewedDiffHash (queue w)) (fetched frame) (toReview frame) m"
    and ready: "\<forall>f h. m f = Some h \<longrightarrow> onBatchReady (queue w)"
    by (auto simp: agrees_def)
  show ?thesis
  proof (cases k)
    case (Suc j)
    then show ?thesis using a Cons others by (simp add: diffSettled_def)
  next
    case 0
    from cs obtain c rest where c: "candidates frame = c # rest"
      by (cases "candidates frame") auto
    define hashes' where
      "hashes' = fst (reviewCandidate (\<lambda>f. r) c (reviewedDiffHash (queue w), toReview frame))"
    define tr' where
      "tr' = snd (reviewCandidate (\<lambda>f. r) c (reviewedDiffHash (queue w), toReview frame))"
    have rc: "reviewCandidate (\<lambda>f. r) c (reviewedDiffHash (queue w), toReview frame) = (hashes', tr')"
      by (simp add: hashes'_def tr'_def)
    have cn: "c \<notin> set (toReview frame)" and dtr: "distinct (toReview frame)"
      using dist c by auto
    have fa': "frameAgrees hashes' ((fetched frame)(c := r)) tr' m"
      unfolding hashes'_def tr'_def by (rule frame_step[OF fa cn])
    have dtr': "distinct tr'"
      unfolding tr'_def by (rule reviewCandidate_distinct[OF dtr cn])
    have sub: "set tr' \<subseteq> set (toReview frame) \<union> {c}"
      unfolding tr'_def by (auto simp: reviewCandidate_set split: if_splits)
    have fw: "fetchedWith 0 r w = (fetched frame)(c := r)"
      by (simp add: fetchedWith_def Cons c)
    show ?thesis
    proof (cases "rest = []")
      case False
      have d2: "distinct (rest @ tr')"
        using dist c dtr' sub by auto
      show ?thesis
        using False fa' d2 ready
        by (simp add: 0 diffSettled_def Cons others c rc Let_def agrees_def)
    next
      case True
      show ?thesis
      proof (cases "tr' \<noteq> [] \<and> onBatchReady (queue w)")
        case True
        note e = frame_end(1)[OF fa' dtr']
          frame_end(2)[OF fa' dtr', where g' = "\<lambda>f. DiffValue None"]
        show ?thesis
          using True \<open>rest = []\<close> e
          by (simp add: 0 diffSettled_def Cons others c rc Let_def agrees_def fw)
      next
        case False
        have "frameAgrees hashes' (\<lambda>f. DiffValue None) [] m"
        proof (cases "tr' = []")
          case True
          then show ?thesis using fa' by (simp add: frameAgrees_def)
        next
          case ne: False
          with False have "\<not> onBatchReady (queue w)" by simp
          then have "\<And>f h. m f \<noteq> Some h" using ready by blast
          then show ?thesis by (simp add: frameAgrees_def)
        qed
        then show ?thesis
          using False \<open>rest = []\<close> ready
          by (auto simp: 0 diffSettled_def Cons others c rc Let_def agrees_def)
      qed
    qed
  qed
qed

lemma exec_step:
  assumes a: "agrees w m" and u: "undisturbed op w"
  shows "okLog m (logOf op w) \<and> agrees (fst (exec op w)) (foldl track m (logOf op w))"
proof (cases op)
  case (DiffSettles k r)
  then show ?thesis using diffSettled_agrees[OF a, of k r] by simp
next
  case ResetQueue
  then show ?thesis using u by (simp add: agrees_def frameAgrees_def)
next
  case (FlushTimerFires now)
  let ?w1 = "w\<lparr>queue := stopCountdown ((queue w)\<lparr>flushTimer := None\<rparr>)\<rparr>"
  have a1: "agrees ?w1 m"
    by (rule agrees_queue[OF a]) simp_all
  have either: "fst (exec op w) = w \<or> fst (exec op w) = flushTimerFired now w"
    using FlushTimerFires by (simp split: option.splits)
  have "agrees (fst (exec op w)) m"
  proof (cases "flushes w = []")
    case True
    then have "flushes ?w1 = []" by simp
    with a1 have "agrees (flushTimerFired now w) m"
      unfolding flushTimerFired_def by (rule startFlush_agrees)
    then show ?thesis using either a by auto
  next
    case False
    then have same: "flushes (fst (exec op w)) = flushes w"
      using u FlushTimerFires by simp
    show ?thesis
    proof (cases "Dlist.length (pendingFiles (queue w)) = 0")
      case True
      then have "agrees (flushTimerFired now w) m"
        using a1 by (simp add: flushTimerFired_def startFlush_def)
      then show ?thesis using either a by auto
    next
      case pending: False
      then have "flushes (flushTimerFired now w) \<noteq> flushes w"
        by (simp add: flushTimerFired_def startFlush_def Let_def)
      then have "fst (exec op w) = w"
        using either same by auto
      then show ?thesis using a by simp
    qed
  qed
  then show ?thesis
    using FlushTimerFires by (simp split: option.splits)
next
  case (EnqueueFile now f)
  have "agrees (w\<lparr>queue := fst (enqueueFile now f (queue w))\<rparr>) m"
    by (rule agrees_queue[OF a]) (simp_all add: enqueueFile_def)
  then show ?thesis using EnqueueFile by simp
next
  case CountdownTicks
  have "agrees (w\<lparr>queue := fst (countdownTick (queue w))\<rparr>) m"
    by (rule agrees_queue[OF a]) simp_all
  then show ?thesis using CountdownTicks by simp
next
  case CancelPending
  have "agrees (w\<lparr>queue := cancelPending (queue w)\<rparr>) m"
    by (rule agrees_queue[OF a]) simp_all
  then show ?thesis using CancelPending by simp
next
  case (Configure cfg)
  have "agrees (w\<lparr>queue := configure cfg (queue w)\<rparr>) m"
    by (rule agrees_queue[OF a]) (simp_all add: configure_def split: option.splits)
  then show ?thesis using Configure by simp
next
  case SetOnBatchReady
  have "agrees (w\<lparr>queue := setOnBatchReady (queue w)\<rparr>) m"
    by (rule agrees_queue[OF a]) (simp_all add: setOnBatchReady_def)
  then show ?thesis using SetOnBatchReady by simp
next
  case SetOnCountdown
  have "agrees (w\<lparr>queue := setOnCountdown (queue w)\<rparr>) m"
    by (rule agrees_queue[OF a]) (simp_all add: setOnCountdown_def)
  then show ?thesis using SetOnCountdown by simp
next
  case SetOnBatchEmpty
  have "agrees (w\<lparr>queue := setOnBatchEmpty (queue w)\<rparr>) m"
    by (rule agrees_queue[OF a]) (simp_all add: setOnBatchEmpty_def)
  then show ?thesis using SetOnBatchEmpty by simp
qed

lemma run_ok: "agrees w m \<Longrightarrow> sequential w ops \<Longrightarrow> okLog m (snd (run w ops))"
proof (induction ops arbitrary: w m)
  case Nil
  then show ?case by simp
next
  case (Cons op ops)
  from Cons.prems have u: "undisturbed op w" and rest: "sequential (fst (exec op w)) ops"
    by simp_all
  from exec_step[OF Cons.prems(1) u]
  have ok: "okLog m (logOf op w)"
    and ag: "agrees (fst (exec op w)) (foldl track m (logOf op w))"
    by simp_all
  from Cons.IH[OF ag rest] ok show ?case
    by (auto simp: okLog_append split: prod.splits)
qed

text \<open>
  C1, as the code has it. Take any sequence of operations, started with no flush waiting, in
  which a flush starts, and \<^verbatim>\<open>resetQueue\<close> is called, only while no flush waits for a fetch.
  In the dispatches observed: when a file is handed to the batch-ready callback twice with
  fetched diffs of the same fingerprint, then between the two dispatches either \<^verbatim>\<open>resetQueue\<close>
  cleared the fingerprint map or the file was dispatched with a fetched diff of another
  fingerprint. A file whose fetch failed is dispatched with no fingerprint, and the statement
  says nothing about such a dispatch.
\<close>

theorem no_redispatch_with_same_fingerprint:
  assumes "flushes w = []" and "sequential w ops"
    and "snd (run w ops) = xs @ Dispatched f (Some h) # ys @ Dispatched f (Some h) # zs"
  shows "FingerprintsCleared \<in> set ys \<or> (\<exists>h'. h' \<noteq> h \<and> Dispatched f (Some h') \<in> set ys)"
proof -
  have "agrees w Map.empty"
    using assms(1) by (simp add: agrees_def frameAgrees_def)
  from run_ok[OF this assms(2)] assms(3)
  have "okLog Map.empty (xs @ Dispatched f (Some h) # ys @ Dispatched f (Some h) # zs)"
    by simp
  then show ?thesis by (rule okLog_no_repeat)
qed


lemma example_hashes_differ: "hashDiff ''diff-a'' \<noteq> hashDiff ''diff-a2''"
  by (simp add: hashDiff_def hashStep_def toString36.simps digit36_def)

theorem no_redispatch_with_same_fingerprint_witness:
  "flushes armedWorld = [] \<and> sequential armedWorld exampleOps
   \<and> snd (run armedWorld exampleOps) =
       [] @ Dispatched ''a.ts'' (Some (hashDiff ''diff-a''))
          # [Dispatched ''b.ts'' (Some (hashDiff ''diff-b'')),
             Dispatched ''a.ts'' (Some (hashDiff ''diff-a2''))]
          @ Dispatched ''a.ts'' (Some (hashDiff ''diff-a'')) # []
   \<and> (FingerprintsCleared \<in> set [Dispatched ''b.ts'' (Some (hashDiff ''diff-b'')),
           Dispatched ''a.ts'' (Some (hashDiff ''diff-a2''))]
      \<or> (\<exists>h'. h' \<noteq> hashDiff ''diff-a''
            \<and> Dispatched ''a.ts'' (Some h')
                \<in> set [Dispatched ''b.ts'' (Some (hashDiff ''diff-b'')),
                       Dispatched ''a.ts'' (Some (hashDiff ''diff-a2''))]))"
proof -
  note defs = exampleOps_def armedWorld_def initialQueue_def flushTimerFired_def startFlush_def
    diffSettled_def fetchedWith_def Dlist.length_def Dlist.empty_def reviewCandidate_def
    enqueueFile_def scheduleFlush_def timeoutDelay_def TIMEOUT_MAX_def setAdd_def
    Dlist.member_def stopCountdown_def fingerprintOf_def Let_def
  have i: "flushes armedWorld = []"
    by (simp add: armedWorld_def)
  have q: "sequential armedWorld exampleOps"
    using example_hashes_differ by (simp add: defs)
  have r: "snd (run armedWorld exampleOps) =
       [] @ Dispatched ''a.ts'' (Some (hashDiff ''diff-a''))
          # [Dispatched ''b.ts'' (Some (hashDiff ''diff-b'')),
             Dispatched ''a.ts'' (Some (hashDiff ''diff-a2''))]
          @ Dispatched ''a.ts'' (Some (hashDiff ''diff-a'')) # []"
    using example_hashes_differ by (simp add: defs)
  from no_redispatch_with_same_fingerprint[OF i q r] i q r show ?thesis
    by simp
qed

text \<open>
  The claim as stated fails when flushes overlap. In the first run below, the first flush
  stores the fingerprint of \<open>diff-a\<close> and waits for the diff of its second file; meanwhile the
  file is enqueued again and a second flush dispatches it with \<open>diff-a2\<close>; then the first
  flush ends and dispatches it with \<open>diff-a\<close>; and a third flush, which fetches \<open>diff-a\<close>
  while the map holds the fingerprint of \<open>diff-a2\<close>, dispatches it with \<open>diff-a\<close> once more.
  Nothing lies between the last two dispatches. It also fails when \<^verbatim>\<open>resetQueue\<close> is called
  while a flush waits: in the second run the map is cleared before the waiting flush
  dispatches the file with \<open>diff-a\<close>, and the next flush dispatches it with \<open>diff-a\<close> again.
\<close>

theorem overlapping_flushes_redispatch_counterexample:
  "flushes eagerWorld = [] \<and> \<not> sequential eagerWorld overlappingOps
   \<and> snd (run eagerWorld overlappingOps) =
     [Dispatched ''a.ts'' (Some (hashDiff ''diff-a2''))]
     @ Dispatched ''a.ts'' (Some (hashDiff ''diff-a''))
       # [] @ Dispatched ''a.ts'' (Some (hashDiff ''diff-a'')) # []
   \<and> \<not> sequential eagerWorld rearmOps
   \<and> snd (run eagerWorld rearmOps) =
       [FingerprintsCleared]
       @ Dispatched ''a.ts'' (Some (hashDiff ''diff-a''))
         # [] @ Dispatched ''a.ts'' (Some (hashDiff ''diff-a'')) # []"
  using example_hashes_differ
  by (simp add: overlappingOps_def rearmOps_def resetQueue_def configure_def
      setOnBatchReady_def eagerWorld_def initialQueue_def flushTimerFired_def
      startFlush_def diffSettled_def fetchedWith_def Dlist.length_def Dlist.empty_def
      reviewCandidate_def enqueueFile_def scheduleFlush_def timeoutDelay_def TIMEOUT_MAX_def
      setAdd_def Dlist.member_def stopCountdown_def fingerprintOf_def Let_def)


subsection \<open>A flush that nothing interrupts\<close>

lemma reviewCandidate_at: "reviewCandidate (\<lambda>f. g c) c acc = reviewCandidate g c acc"
  by (simp add: reviewCandidate_def)

lemma settleAll_frame:
  "cs \<noteq> [] \<Longrightarrow> flushes w = [\<lparr>candidates = cs, toReview = tr, fetched = fd\<rparr>] \<Longrightarrow>
   settleAll g cs w =
     (w\<lparr>queue := (queue w)\<lparr>reviewedDiffHash :=
                     fst (reviewCandidates g cs (reviewedDiffHash (queue w), tr))\<rparr>,
        flushes := []\<rparr>,
      if length (snd (reviewCandidates g cs (reviewedDiffHash (queue w), tr))) > 0
      then (if onBatchReady (queue w)
            then [BatchReadyEv (snd (reviewCandidates g cs (reviewedDiffHash (queue w), tr)))]
            else [])
      else (if onBatchEmpty (queue w) then [BatchEmptyEv] else []))"
proof (induction cs arbitrary: w tr fd)
  case Nil
  then show ?case by simp
next
  case (Cons c rest)
  obtain hashes' tr' where rc:
    "reviewCandidate g c (reviewedDiffHash (queue w), tr) = (hashes', tr')"
    by (cases "reviewCandidate g c (reviewedDiffHash (queue w), tr)")
  show ?case
  proof (cases "rest = []")
    case True
    then show ?thesis
      using Cons.prems(2) rc
      by (simp add: diffSettled_def reviewCandidate_at Let_def)
  next
    case False
    let ?w1 = "w\<lparr>queue := (queue w)\<lparr>reviewedDiffHash := hashes'\<rparr>,
                  flushes := [\<lparr>candidates = rest, toReview = tr', fetched = fd(c := g c)\<rparr>]\<rparr>"
    have step: "diffSettled 0 (g c) w = (?w1, [])"
      using Cons.prems(2) rc False
      by (simp add: diffSettled_def reviewCandidate_at Let_def)
    have "flushes ?w1 = [\<lparr>candidates = rest, toReview = tr', fetched = fd(c := g c)\<rparr>]"
      by simp
    from Cons.IH[OF False this] show ?thesis
      by (simp add: step rc)
  qed
qed

text \<open>
  When no flush waits and nothing reaches the module while the flush awaits its diffs, the
  pieces of the flush add up to \<open>runFlush\<close>.
\<close>

lemma uninterrupted_flush:
  assumes "flushes w = []"
  shows "settleAll g (list_of_dlist (pendingFiles (queue w))) (startFlush now w) =
           (w\<lparr>queue := fst (runFlush now g (queue w))\<rparr>, snd (runFlush now g (queue w)))"
proof (cases "Dlist.length (pendingFiles (queue w)) = 0")
  case True
  then show ?thesis
    by (simp add: startFlush_def runFlush_def Dlist.length_def)
next
  case False
  then have ne: "list_of_dlist (pendingFiles (queue w)) \<noteq> []"
    by (simp add: Dlist.length_def)
  have fl: "flushes (startFlush now w) =
      [\<lparr>candidates = list_of_dlist (pendingFiles (queue w)), toReview = [],
        fetched = (\<lambda>f. DiffValue None)\<rparr>]"
    using False assms by (simp add: startFlush_def Let_def)
  show ?thesis
    using False assms
    by (simp add: settleAll_frame[OF ne fl] runFlush_nonempty toReviewOf_def)
       (simp add: startFlush_def Let_def)
qed


subsection \<open>Scheduling, countdown and cancellation\<close>


lemma countdowns_append [simp]: "countdowns (xs @ ys) = countdowns xs @ countdowns ys"
  by (induction xs rule: countdowns.induct) simp_all

lemma flushTimerFired_timers [simp]:
  "flushTimer (queue (flushTimerFired now w)) = None"
  "countdownInterval (queue (flushTimerFired now w)) = None"
  by (simp_all add: flushTimerFired_def startFlush_def Let_def)









text \<open>
  In every world reached from the initial state of the module, a queue with no flush scheduled
  has no ticker running either.
\<close>

lemma diffSettled_timers [simp]:
  "flushTimer (queue (fst (diffSettled k r w))) = flushTimer (queue w)"
  "countdownInterval (queue (fst (diffSettled k r w))) = countdownInterval (queue w)"
  by (simp_all add: diffSettled_def Let_def split: list.splits prod.splits)

lemma exec_ticker_under_flush_timer:
  assumes "flushTimer (queue w) = None \<longrightarrow> countdownInterval (queue w) = None"
  shows "flushTimer (queue (fst (exec op w))) = None
         \<longrightarrow> countdownInterval (queue (fst (exec op w))) = None"
proof (cases op)
  case (EnqueueFile now f)
  then show ?thesis
    using assms
    by (auto simp: enqueueFile_def scheduleFlush_def Let_def split: option.splits if_splits)
next
  case CountdownTicks
  then show ?thesis
    using assms
    by (auto simp: countdownTick_def Let_def split: option.splits if_splits)
next
  case (FlushTimerFires now)
  then show ?thesis using assms by (simp split: option.splits)
next
  case ResetQueue
  then show ?thesis by (simp add: resetQueue_def Let_def split: option.splits)
next
  case (DiffSettles k r)
  then show ?thesis using assms by simp
qed (use assms in \<open>simp_all add: configure_def setOnBatchReady_def setOnCountdown_def
      setOnBatchEmpty_def split: option.splits\<close>)

lemma run_ticker_under_flush_timer:
  "flushTimer (queue w) = None \<longrightarrow> countdownInterval (queue w) = None \<Longrightarrow>
   flushTimer (queue (fst (run w ops))) = None
   \<longrightarrow> countdownInterval (queue (fst (run w ops))) = None"
proof (induction ops arbitrary: w)
  case Nil
  then show ?case by simp
next
  case (Cons op ops)
  from Cons.IH[OF exec_ticker_under_flush_timer[OF Cons.prems, of op]]
  show ?case by (cases "run (fst (exec op w)) ops") simp
qed

lemma reachable_idle_has_no_ticker:
  "flushTimer (queue (fst (run \<lparr>queue = initialQueue, flushes = []\<rparr> ops))) = None \<Longrightarrow>
   countdownInterval (queue (fst (run \<lparr>queue = initialQueue, flushes = []\<rparr> ops))) = None"
  using run_ticker_under_flush_timer[of "\<lparr>queue = initialQueue, flushes = []\<rparr>" ops]
  by (simp add: initialQueue_def)







section \<open>Properties of the review engine\<close>

subsection \<open>The agent loop\<close>

lemma verdict_parsed:
  "parseResponse truncateText exampleParse writeLog verdictText =
     Inr [\<lparr>tier = ''medium'', file = ''src/auth.ts'', line = 1, title = ''Login call suspicious'',
           explanation = ''login() called without guard''\<rparr>]"
  by (simp add: parseResponse_def trim_def isSpace_def verdictText_def arrayMatch_def
      exampleParse_def fencedText_def verdictIssues_def isValidIssue_def normalizeIssue_def
      property_def isString_def asString_def isNumber_def asNumber_def mathRound_def
      truncateText_def Let_def)

text \<open>
  C4, as the code has it. Let the model answer the opening conversation with chunks that hold
  exactly one tool call, and the conversation extended by that turn and the tool result with
  chunks that hold no tool call. Let cancellation not be requested at the top of the first two
  iterations, let the tool call return a result, and let the three lines logged on the way be
  written. Then the loop sends exactly two requests and calls the tool executor exactly once,
  with the name and input requested; the conversation gains the assistant turn (the text
  parts, then the tool call) and one user turn that carries the tool result tagged with the
  call identifier; and the loop ends with what \<^verbatim>\<open>parseResponse\<close> makes of the text of the
  second answer.
\<close>

theorem agent_loop_one_tool_call_then_verdict:
  assumes "\<not> cancellationRequested env 0" and "\<not> cancellationRequested env 1"
    and "model 0 [User [TextPart (systemPrompt env)], User [TextPart userPrompt]] = Inr first"
    and "filter isToolCall first = [ToolCallPart name callId input]"
    and "logLine env (AgentIterationLine 0) = None"
    and "executeToolCall env 0 0 name input = Inr result"
    and "logLine env (ToolResultLine 0 0) = None"
    and "model 1 [User [TextPart (systemPrompt env)], User [TextPart userPrompt],
                  Assistant (filter isText first @ [ToolCallPart name callId input]),
                  User [ToolResultPart callId [TextPart result]]] = Inr second"
    and "filter isToolCall second = []"
    and "logLine env (AgentDoneLine 1) = None"
  shows "runAgentLoop env model userPrompt =
     (parseResponse (textTruncate env) (jsonParse env) (logLine env)
        (concat (map partValue (filter isText second))),
      \<lparr>messages =
         [User [TextPart (systemPrompt env)], User [TextPart userPrompt],
          Assistant (filter isText first @ [ToolCallPart name callId input]),
          User [ToolResultPart callId [TextPart result]]],
       requests = 2,
       toolRuns = [(name, input)]\<rparr>)"
  using assms
  by (simp add: runAgentLoop_def openingState_def agentLoopFrom.simps[of env model 0]
      agentLoopFrom.simps[of env model "Suc 0"] MAX_AGENT_ITERATIONS_def Let_def)

theorem agent_loop_one_tool_call_then_verdict_witness:
  "\<not> cancellationRequested exampleEnv 0 \<and> \<not> cancellationRequested exampleEnv 1
   \<and> toolThenVerdict 0 [User [TextPart (systemPrompt exampleEnv)],
                         User [TextPart ''Review this file change'']]
       = Inr [ToolCallPart ''readFile'' ''call-001'' [(''path'', ''src/utils.ts'')]]
   \<and> executeToolCall exampleEnv 0 0 ''readFile'' [(''path'', ''src/utils.ts'')]
       = Inr ''export function login() {}''
   \<and> toolThenVerdict 1
         [User [TextPart (systemPrompt exampleEnv)], User [TextPart ''Review this file change''],
          Assistant [ToolCallPart ''readFile'' ''call-001'' [(''path'', ''src/utils.ts'')]],
          User [ToolResultPart ''call-001'' [TextPart ''export function login() {}'']]]
       = Inr [TextPart verdictText]
   \<and> runAgentLoop exampleEnv toolThenVerdict ''Review this file change'' =
     (Inr [\<lparr>tier = ''medium'', file = ''src/auth.ts'', line = 1,
            title = ''Login call suspicious'',
            explanation = ''login() called without guard''\<rparr>],
      \<lparr>messages =
         [User [TextPart (systemPrompt exampleEnv)], User [TextPart ''Review this file change''],
          Assistant [ToolCallPart ''readFile'' ''call-001'' [(''path'', ''src/utils.ts'')]],
          User [ToolResultPart ''call-001'' [TextPart ''export function login() {}'']]],
       requests = 2,
       toolRuns = [(''readFile'', [(''path'', ''src/utils.ts'')])]\<rparr>)"
proof -
  have c: "\<not> cancellationRequested exampleEnv 0" "\<not> cancellationRequested exampleEnv 1"
    by (simp_all add: exampleEnv_def neverCancelled_def)
  have f: "toolThenVerdict 0 [User [TextPart (systemPrompt exampleEnv)],
                              User [TextPart ''Review this file change'']]
         = Inr [ToolCallPart ''readFile'' ''call-001'' [(''path'', ''src/utils.ts'')]]"
    by (simp add: toolThenVerdict_def)
  have f1: "filter isToolCall [ToolCallPart ''readFile'' ''call-001'' [(''path'', ''src/utils.ts'')]]
      = [ToolCallPart ''readFile'' ''call-001'' [(''path'', ''src/utils.ts'')]]"
    by (simp add: isToolCall_def)
  have l: "logLine exampleEnv site = None" for site
    by (simp add: logLine_def exampleEnv_def)
  have t: "executeToolCall exampleEnv 0 0 ''readFile'' [(''path'', ''src/utils.ts'')]
      = Inr ''export function login() {}''"
    by (simp add: exampleEnv_def loginSource_def)
  have s: "toolThenVerdict 1
         [User [TextPart (systemPrompt exampleEnv)], User [TextPart ''Review this file change''],
          Assistant (filter isText [ToolCallPart ''readFile'' ''call-001'' [(''path'', ''src/utils.ts'')]]
            @ [ToolCallPart ''readFile'' ''call-001'' [(''path'', ''src/utils.ts'')]]),
          User [ToolResultPart ''call-001'' [TextPart ''export function login() {}'']]]
       = Inr [TextPart verdictText]"
    by (simp add: toolThenVerdict_def)
  have s1: "filter isToolCall [TextPart verdictText] = []"
    by (simp add: isToolCall_def)
  have env: "textTruncate exampleEnv = truncateText" "jsonParse exampleEnv = exampleParse"
    by (simp_all add: exampleEnv_def)
  show ?thesis
    using c f t s
      agent_loop_one_tool_call_then_verdict[OF c f f1 l t l s s1 l]
    by (simp add: env verdict_parsed isText_def partValue_def)
qed

text \<open>
  The claim as stated fails in three ways. When cancellation is requested before the second
  iteration, the loop returns the empty list after one request. When the tool call does not
  return (the second model below answers with one \<^verbatim>\<open>searchCode\<close> call and then with the final
  JSON text, and the call is rejected), the loop ends with that error after one request, with
  no user turn appended. When the line logged after the first answer cannot be written, the
  loop ends with that error before the tool is called.
\<close>

theorem rejected_tool_call_ends_loop_counterexample:
  "runAgentLoop stoppedEnv toolThenVerdict ''Review this file change'' =
       (Inr [],
        \<lparr>messages =
           [User [TextPart (systemPrompt stoppedEnv)],
            User [TextPart ''Review this file change''],
            Assistant [ToolCallPart ''readFile'' ''call-001'' [(''path'', ''src/utils.ts'')]],
            User [ToolResultPart ''call-001'' [TextPart ''export function login() {}'']]],
         requests = 1,
         toolRuns = [(''readFile'', [(''path'', ''src/utils.ts'')])]\<rparr>)
   \<and> searchThenVerdict 0 [User [TextPart (systemPrompt failingSearchEnv)],
                        User [TextPart ''Review this file change'']]
     = Inr [ToolCallPart ''searchCode'' ''call-001'' [(''query'', ''login'')]]
   \<and> searchThenVerdict 1 [] = Inr [TextPart verdictText]
   \<and> runAgentLoop failingSearchEnv searchThenVerdict ''Review this file change'' =
       (Inl (Error ''findFiles failed''),
        \<lparr>messages =
           [User [TextPart (systemPrompt failingSearchEnv)],
            User [TextPart ''Review this file change''],
            Assistant [ToolCallPart ''searchCode'' ''call-001'' [(''query'', ''login'')]]],
         requests = 1,
         toolRuns = [(''searchCode'', [(''query'', ''login'')])]\<rparr>)
   \<and> runAgentLoop closedChannelEnv toolThenVerdict ''Review this file change'' =
       (Inl (Error ''Channel has been closed''),
        \<lparr>messages =
           [User [TextPart (systemPrompt closedChannelEnv)],
            User [TextPart ''Review this file change'']],
         requests = 1,
         toolRuns = []\<rparr>)"
proof -
  have e: "cancellationRequested failingSearchEnv = neverCancelled"
    "executeToolCall failingSearchEnv = failingSearch"
    "cancellationRequested closedChannelEnv = neverCancelled"
    "cancellationRequested stoppedEnv = stopRequested"
    "executeToolCall stoppedEnv = loginSource"
    by (simp_all add: failingSearchEnv_def closedChannelEnv_def stoppedEnv_def exampleEnv_def)
  have l: "logLine failingSearchEnv site = None"
    "logLine stoppedEnv site = None"
    "logLine closedChannelEnv site = Some (Error ''Channel has been closed'')" for site
    by (simp_all add: logLine_def failingSearchEnv_def closedChannelEnv_def stoppedEnv_def
        exampleEnv_def closedChannel_def)
  show ?thesis
    by (simp add: runAgentLoop_def openingState_def agentLoopFrom.simps[of _ _ 0]
        agentLoopFrom.simps[of _ _ "Suc 0"] afterLoop_def MAX_AGENT_ITERATIONS_def Let_def e l
        neverCancelled_def stopRequested_def searchThenVerdict_def toolThenVerdict_def
        isToolCall_def isText_def failingSearch_def loginSource_def)
qed


lemma executeTools_all_return:
  assumes tools: "\<forall>i k name input. \<exists>result. executeToolCall env i k name input = Inr result"
    and logs: "\<forall>i k. logLine env (ToolResultLine i k) = None"
  shows "list_all isToolCall calls \<Longrightarrow>
         executeTools env iteration k calls toolResults st =
           (Inr (toolResults @ map (toolResultOf env iteration) (enumerate k calls)),
            st\<lparr>toolRuns := toolRuns st @ map toolRun calls\<rparr>)"
proof (induction calls arbitrary: k toolResults st)
  case Nil
  then show ?case by simp
next
  case (Cons c calls)
  from Cons.prems obtain name callId input where c: "c = ToolCallPart name callId input"
    by (cases c) (simp_all add: isToolCall_def)
  from tools obtain result where r: "executeToolCall env iteration k name input = Inr result"
    by blast
  have rest: "list_all isToolCall calls"
    using Cons.prems by simp
  show ?case
    using logs r
    by (simp add: c Cons.IH[OF rest] toolResultOf_def toolRun_def Let_def)
qed

lemma toolTurns_requests:
  assumes "\<forall>m < n. \<exists>chunks. model m (messages (toolTurns env model userPrompt m)) = Inr chunks
              \<and> filter isToolCall chunks \<noteq> []"
  shows "requests (toolTurns env model userPrompt n) = n"
proof (cases n)
  case 0
  then show ?thesis by (simp add: openingState_def)
next
  case (Suc m)
  with assms obtain chunks
    where "model m (messages (toolTurns env model userPrompt m)) = Inr chunks"
    by auto
  then show ?thesis by (simp add: Suc Let_def)
qed

lemma toolTurns_sizes:
  "\<forall>m < n. \<exists>chunks. model m (messages (toolTurns env model userPrompt m)) = Inr chunks
              \<and> filter isToolCall chunks \<noteq> [] \<Longrightarrow>
   length (messages (toolTurns env model userPrompt n)) = 2 + 2 * n
   \<and> n \<le> length (toolRuns (toolTurns env model userPrompt n))"
proof (induction n)
  case 0
  then show ?case by (simp add: openingState_def)
next
  case (Suc n)
  from Suc.prems obtain chunks
    where c: "model n (messages (toolTurns env model userPrompt n)) = Inr chunks"
      and ne: "filter isToolCall chunks \<noteq> []"
    by auto
  from ne have "1 \<le> length (filter isToolCall chunks)"
    by (cases "filter isToolCall chunks") simp_all
  moreover have "length (messages (toolTurns env model userPrompt n)) = 2 + 2 * n
      \<and> n \<le> length (toolRuns (toolTurns env model userPrompt n))"
    using Suc.prems by (intro Suc.IH) auto
  ultimately show ?case
    by (simp add: c Let_def)
qed

lemma loop_state_updated:
  "st\<lparr>requests := r, toolRuns := t, messages := m\<rparr> = \<lparr>messages = m, requests = r, toolRuns = t\<rparr>"
  by (cases st) simp

lemma agentLoop_tool_calls_only:
  assumes tools: "\<forall>i k name input. \<exists>result. executeToolCall env i k name input = Inr result"
    and logs: "\<forall>i k. logLine env (ToolResultLine i k) = None"
    and logi: "\<forall>i. logLine env (AgentIterationLine i) = None"
  shows "k = MAX_AGENT_ITERATIONS - i \<Longrightarrow>
         requests (toolTurns env model userPrompt i) = i \<Longrightarrow>
         \<forall>n. i \<le> n \<and> n < i + length (takeWhile (\<lambda>j. \<not> cancellationRequested env j)
                                       [i..<MAX_AGENT_ITERATIONS])
            \<longrightarrow> (\<exists>chunks. model n (messages (toolTurns env model userPrompt n)) = Inr chunks
                     \<and> filter isToolCall chunks \<noteq> []) \<Longrightarrow>
         agentLoopFrom env model i (toolTurns env model userPrompt i) =
           afterLoop env (toolTurns env model userPrompt
              (i + length (takeWhile (\<lambda>j. \<not> cancellationRequested env j)
                             [i..<MAX_AGENT_ITERATIONS])))"
proof (induction k arbitrary: i)
  case 0
  then have "\<not> i < MAX_AGENT_ITERATIONS" by simp
  then show ?case
    by (simp add: agentLoopFrom.simps[of env model i])
next
  case (Suc k)
  let ?st = "toolTurns env model userPrompt i"
  from Suc.prems have lt: "i < MAX_AGENT_ITERATIONS" by simp
  then have u: "[i..<MAX_AGENT_ITERATIONS] = i # [i + 1..<MAX_AGENT_ITERATIONS]"
    by (simp add: upt_conv_Cons)
  show ?case
  proof (cases "cancellationRequested env i")
    case True
    then show ?thesis
      using lt by (simp add: agentLoopFrom.simps[of env model i] u)
  next
    case False
    note rq = Suc.prems(2)
    from Suc.prems(3) False obtain chunks where m: "model i (messages ?st) = Inr chunks"
      and ne: "filter isToolCall chunks \<noteq> []"
      by (auto simp: u)
    have calls: "list_all isToolCall (filter isToolCall chunks)"
      by (simp add: list_all_iff)
    have next_state: "toolTurns env model userPrompt (Suc i) =
        \<lparr>messages = messages ?st
           @ [Assistant (filter isText chunks @ filter isToolCall chunks),
              User (map (toolResultOf env i) (enumerate 0 (filter isToolCall chunks)))],
         requests = Suc i,
         toolRuns = toolRuns ?st @ map toolRun (filter isToolCall chunks)\<rparr>"
      by (simp add: m Let_def)
    have step: "agentLoopFrom env model i ?st =
        agentLoopFrom env model (i + 1) (toolTurns env model userPrompt (Suc i))"
      using lt False m ne logi rq
      by (subst agentLoopFrom.simps)
         (simp add: Let_def executeTools_all_return[OF tools logs calls] next_state
            loop_state_updated)
    have rq': "requests (toolTurns env model userPrompt (i + 1)) = i + 1"
      using next_state by (simp del: toolTurns.simps)
    have tc': "\<forall>n. i + 1 \<le> n \<and> n < i + 1 + length (takeWhile (\<lambda>j. \<not> cancellationRequested env j)
                                       [i + 1..<MAX_AGENT_ITERATIONS])
            \<longrightarrow> (\<exists>chunks. model n (messages (toolTurns env model userPrompt n)) = Inr chunks
                     \<and> filter isToolCall chunks \<noteq> [])"
      using Suc.prems(3) False by (simp add: u)
    have "agentLoopFrom env model (i + 1) (toolTurns env model userPrompt (i + 1)) =
           afterLoop env (toolTurns env model userPrompt
              (i + 1 + length (takeWhile (\<lambda>j. \<not> cancellationRequested env j)
                                 [i + 1..<MAX_AGENT_ITERATIONS])))"
      using Suc.prems(1) by (intro Suc.IH[OF _ rq' tc']) simp
    then show ?thesis using False by (simp add: step u)
  qed
qed

lemma takeWhile_all: "(\<forall>x \<in> set xs. P x) \<Longrightarrow> takeWhile P xs = xs"
  by (induction xs) simp_all

text \<open>
  C5, as the code has it. Let \<open>N\<close> count the iterations up to the first one at whose top
  cancellation is requested, and at most 10. Let each of the \<open>N\<close> answers of the model hold at
  least one tool call, let every tool call return a result, and let every line logged be
  written. Then the loop does not throw: it returns the empty issue list after \<open>N\<close>
  iterations, each with one request, the assistant turn, the requested tool calls and the
  user turn of their results. So when cancellation is not requested, the loop runs exactly
  10 iterations and then returns the empty list.
\<close>

theorem agent_loop_stops_at_iteration_ceiling:
  assumes "N = length (takeWhile (\<lambda>i. \<not> cancellationRequested env i)
                         [0..<MAX_AGENT_ITERATIONS])"
    and "\<forall>n < N. \<exists>chunks. model n (messages (toolTurns env model userPrompt n)) = Inr chunks
                    \<and> filter isToolCall chunks \<noteq> []"
    and "\<forall>i k name input. \<exists>result. executeToolCall env i k name input = Inr result"
    and "\<forall>site. logLine env site = None"
  shows "runAgentLoop env model userPrompt = (Inr [], toolTurns env model userPrompt N)
       \<and> requests (snd (runAgentLoop env model userPrompt)) = N
       \<and> length (messages (snd (runAgentLoop env model userPrompt))) = 2 + 2 * N
       \<and> N \<le> length (toolRuns (snd (runAgentLoop env model userPrompt)))
       \<and> ((\<forall>i < MAX_AGENT_ITERATIONS. \<not> cancellationRequested env i) \<longrightarrow> N = 10)"
proof -
  have tc: "\<forall>n. 0 \<le> n \<and> n < 0 + length (takeWhile (\<lambda>j. \<not> cancellationRequested env j)
                                       [0..<MAX_AGENT_ITERATIONS])
            \<longrightarrow> (\<exists>chunks. model n (messages (toolTurns env model userPrompt n)) = Inr chunks
                     \<and> filter isToolCall chunks \<noteq> [])"
    using assms(1,2) by simp
  have r0: "requests (toolTurns env model userPrompt 0) = 0"
    by (simp add: openingState_def)
  have run: "runAgentLoop env model userPrompt = (Inr [], toolTurns env model userPrompt N)"
    using agentLoop_tool_calls_only[where env = env and model = model
        and userPrompt = userPrompt and i = 0, OF assms(3) _ _ refl r0 tc] assms(1,4)
    by (simp add: runAgentLoop_def afterLoop_def)
  have ten: "N = 10" if a: "\<forall>i < MAX_AGENT_ITERATIONS. \<not> cancellationRequested env i"
  proof -
    have e: "takeWhile (\<lambda>i. \<not> cancellationRequested env i) [0..<MAX_AGENT_ITERATIONS]
        = [0..<MAX_AGENT_ITERATIONS]"
      by (rule takeWhile_all) (use a in simp)
    show ?thesis
      unfolding assms(1) e by (simp add: MAX_AGENT_ITERATIONS_def)
  qed
  show ?thesis
    using ten
      toolTurns_requests[where n = N and model = model and env = env
        and userPrompt = userPrompt, OF assms(2)]
      toolTurns_sizes[where n = N and model = model and env = env
        and userPrompt = userPrompt, OF assms(2)]
    by (simp add: run)
qed

theorem agent_loop_stops_at_iteration_ceiling_witness:
  "length (takeWhile (\<lambda>i. \<not> cancellationRequested exampleEnv i) [0..<MAX_AGENT_ITERATIONS]) = 10
   \<and> (\<forall>n msgs. \<exists>chunks. alwaysToolCall n msgs = Inr chunks \<and> filter isToolCall chunks \<noteq> [])
   \<and> (\<forall>i k name input. \<exists>result. executeToolCall exampleEnv i k name input = Inr result)
   \<and> (\<forall>site. logLine exampleEnv site = None)
   \<and> fst (runAgentLoop exampleEnv alwaysToolCall ''Review this file change'') = Inr []
   \<and> requests (snd (runAgentLoop exampleEnv alwaysToolCall ''Review this file change'')) = 10
   \<and> length (messages (snd (runAgentLoop exampleEnv alwaysToolCall ''Review this file change''))) = 22
   \<and> 10 \<le> length (toolRuns (snd (runAgentLoop exampleEnv alwaysToolCall ''Review this file change'')))"
proof -
  have c: "cancellationRequested exampleEnv i = False" for i
    by (simp add: exampleEnv_def neverCancelled_def)
  have w: "takeWhile (\<lambda>i. True) [0..<10] = [0..<10]"
    by (rule takeWhile_all) simp
  have n: "10 = length (takeWhile (\<lambda>i. \<not> cancellationRequested exampleEnv i)
                          [0..<MAX_AGENT_ITERATIONS])"
    by (simp add: c MAX_AGENT_ITERATIONS_def w)
  have t: "\<forall>n msgs. \<exists>chunks. alwaysToolCall n msgs = Inr chunks \<and> filter isToolCall chunks \<noteq> []"
    by (simp add: alwaysToolCall_def isToolCall_def)
  then have t': "\<forall>n < 10. \<exists>chunks.
      alwaysToolCall n (messages (toolTurns exampleEnv alwaysToolCall ''Review this file change'' n))
        = Inr chunks \<and> filter isToolCall chunks \<noteq> []"
    by simp
  have x: "\<forall>i k name input. \<exists>result. executeToolCall exampleEnv i k name input = Inr result"
    by (simp add: exampleEnv_def loginSource_def)
  have l: "\<forall>site. logLine exampleEnv site = None"
    by (simp add: logLine_def exampleEnv_def)
  show ?thesis
    using n t x l
      agent_loop_stops_at_iteration_ceiling[where N = 10 and env = exampleEnv
        and model = alwaysToolCall and userPrompt = "''Review this file change''",
        OF n t' x l]
    by auto
qed

text \<open>
  The claim as stated fails in three ways. When cancellation is requested before the second
  iteration, the loop returns the empty list after one iteration. When a tool call does not
  return (every answer of the second model below holds a \<^verbatim>\<open>searchCode\<close> call, and the first one
  is rejected), the loop throws that error after one request. When the line logged behind the
  loop cannot be written, the loop throws after its 10 iterations.
\<close>

theorem tool_loop_throws_counterexample:
  "fst (runAgentLoop stoppedEnv alwaysToolCall ''Review this file change'') = Inr []
   \<and> requests (snd (runAgentLoop stoppedEnv alwaysToolCall ''Review this file change'')) = 1
   \<and> alwaysSearch 0 [User [TextPart (systemPrompt failingSearchEnv)],
                     User [TextPart ''Review this file change'']]
       = Inr [ToolCallPart ''searchCode'' ''call-x'' [(''query'', ''login'')]]
   \<and> runAgentLoop failingSearchEnv alwaysSearch ''Review this file change'' =
       (Inl (Error ''findFiles failed''),
        \<lparr>messages =
           [User [TextPart (systemPrompt failingSearchEnv)],
            User [TextPart ''Review this file change''],
            Assistant [ToolCallPart ''searchCode'' ''call-x'' [(''query'', ''login'')]]],
         requests = 1,
         toolRuns = [(''searchCode'', [(''query'', ''login'')])]\<rparr>)
   \<and> fst (runAgentLoop closingChannelEnv alwaysToolCall ''Review this file change'')
       = Inl (Error ''Channel has been closed'')
   \<and> requests (snd (runAgentLoop closingChannelEnv alwaysToolCall ''Review this file change''))
       = 10"
proof -
  have e: "cancellationRequested failingSearchEnv = neverCancelled"
    "executeToolCall failingSearchEnv = failingSearch"
    "cancellationRequested stoppedEnv = stopRequested"
    "executeToolCall stoppedEnv = loginSource"
    by (simp_all add: failingSearchEnv_def stoppedEnv_def exampleEnv_def)
  have l: "logLine failingSearchEnv site = None" "logLine stoppedEnv site = None" for site
    by (simp_all add: logLine_def failingSearchEnv_def stoppedEnv_def exampleEnv_def)
  have 0: "runAgentLoop stoppedEnv alwaysToolCall ''Review this file change'' =
       (Inr [],
        \<lparr>messages =
           [User [TextPart (systemPrompt stoppedEnv)],
            User [TextPart ''Review this file change''],
            Assistant [ToolCallPart ''listDirectory'' ''call-x'' [(''path'', ''.'')]],
            User [ToolResultPart ''call-x'' [TextPart ''export function login() {}'']]],
         requests = 1,
         toolRuns = [(''listDirectory'', [(''path'', ''.'')])]\<rparr>)"
    by (simp add: runAgentLoop_def openingState_def agentLoopFrom.simps[of _ _ 0]
        agentLoopFrom.simps[of _ _ "Suc 0"] afterLoop_def
        MAX_AGENT_ITERATIONS_def Let_def e l stopRequested_def
        alwaysToolCall_def isToolCall_def isText_def loginSource_def)
  have 1: "runAgentLoop failingSearchEnv alwaysSearch ''Review this file change'' =
       (Inl (Error ''findFiles failed''),
        \<lparr>messages =
           [User [TextPart (systemPrompt failingSearchEnv)],
            User [TextPart ''Review this file change''],
            Assistant [ToolCallPart ''searchCode'' ''call-x'' [(''query'', ''login'')]]],
         requests = 1,
         toolRuns = [(''searchCode'', [(''query'', ''login'')])]\<rparr>)"
    by (simp add: runAgentLoop_def openingState_def
        agentLoopFrom.simps[of _ _ 0] MAX_AGENT_ITERATIONS_def Let_def e l neverCancelled_def
        alwaysSearch_def isToolCall_def isText_def failingSearch_def)
  have t: "\<forall>n. 0 \<le> n \<and> n < 0 + length (takeWhile (\<lambda>j. \<not> cancellationRequested closingChannelEnv j)
                                       [0..<MAX_AGENT_ITERATIONS])
      \<longrightarrow> (\<exists>chunks. alwaysToolCall n
               (messages (toolTurns closingChannelEnv alwaysToolCall ''Review this file change'' n))
             = Inr chunks \<and> filter isToolCall chunks \<noteq> [])"
    by (simp add: alwaysToolCall_def isToolCall_def)
  have t10: "\<forall>m < 10. \<exists>chunks. alwaysToolCall m
               (messages (toolTurns closingChannelEnv alwaysToolCall ''Review this file change'' m))
             = Inr chunks \<and> filter isToolCall chunks \<noteq> []"
    by (simp add: alwaysToolCall_def isToolCall_def)
  have x: "\<forall>i k name input. \<exists>result. executeToolCall closingChannelEnv i k name input = Inr result"
    by (simp add: closingChannelEnv_def exampleEnv_def loginSource_def)
  have c: "logLine closingChannelEnv (ToolResultLine i k) = None"
    "logLine closingChannelEnv (AgentIterationLine i) = None"
    "logLine closingChannelEnv MaxIterationsLine = Some (Error ''Channel has been closed'')"
    "cancellationRequested closingChannelEnv i = False" for i k
    by (simp_all add: logLine_def closingChannelEnv_def exampleEnv_def closingChannel_def
        neverCancelled_def)
  have r0: "requests (toolTurns closingChannelEnv alwaysToolCall ''Review this file change'' 0) = 0"
    by (simp add: openingState_def)
  have 2: "runAgentLoop closingChannelEnv alwaysToolCall ''Review this file change'' =
      afterLoop closingChannelEnv
        (toolTurns closingChannelEnv alwaysToolCall ''Review this file change'' 10)"
    using agentLoop_tool_calls_only[where env = closingChannelEnv and model = alwaysToolCall
        and userPrompt = "''Review this file change''" and i = 0, OF x _ _ refl r0 t]
      takeWhile_all[of "[0..<10]" "\<lambda>i. True"]
    by (simp add: runAgentLoop_def c MAX_AGENT_ITERATIONS_def)
  show ?thesis
    using toolTurns_requests[where n = 10 and model = alwaysToolCall
        and env = closingChannelEnv and userPrompt = "''Review this file change''", OF t10]
    by (simp add: 0 1 2 afterLoop_def c alwaysSearch_def)
qed

subsection \<open>Errors of a review\<close>

lemma callLLM_no_models:
  "familyModels env = [] \<Longrightarrow> copilotModels env = [] \<Longrightarrow>
   callLLM env userPrompt =
     Inl (case logLine env NoFamilyModelLine of Some e \<Rightarrow> e | None \<Rightarrow> noModelsError)"
  by (simp add: callLLM_def split: option.splits)

text \<open>
  C6, as the code has it. With no model of the configured family and no Copilot model at all,
  \<^verbatim>\<open>callLLM\<close> throws: the fatal error, unless the line it logs before the fallback query cannot
  be written, and then the error of that. So does \<^verbatim>\<open>reviewFile\<close> once it has a non-empty diff
  and the history of the file: the fatal error, unless one of the two lines logged before
  cannot be written. A file with no diff is skipped before any model is selected: the result
  is the empty list, unless the line logged for it cannot be written. The fatal error is not
  the only one that aborts \<^verbatim>\<open>reviewFile\<close>: it rejects with an error exactly when the diff
  fetch fails with it, or the history fetch fails with it, or one of its two log lines fails
  with it, or \<^verbatim>\<open>callLLM\<close> fails with it.
\<close>

theorem review_file_abort_conditions:
  "(familyModels env = [] \<and> copilotModels env = [] \<longrightarrow>
      callLLM env userPrompt =
        Inl (case logLine env NoFamilyModelLine of Some e \<Rightarrow> e | None \<Rightarrow> noModelsError))
   \<and> (familyModels env = [] \<and> copilotModels env = []
        \<and> fileDiff env filePath = Inr (Some diff) \<and> diff \<noteq> []
        \<and> recentHistory env filePath = Inr history
      \<longrightarrow> reviewFile env filePath =
            Inl (case logLine env ReviewingLine of
                   Some e \<Rightarrow> e
                 | None \<Rightarrow>
                     (case logLine env NoFamilyModelLine of
                        Some e \<Rightarrow> e
                      | None \<Rightarrow> noModelsError)))
   \<and> (fileDiff env filePath = Inr None \<or> fileDiff env filePath = Inr (Some [])
      \<longrightarrow> reviewFile env filePath =
            (case logLine env NoDiffLine of Some e \<Rightarrow> Inl e | None \<Rightarrow> Inr []))
   \<and> (reviewFile env filePath = Inl e \<longleftrightarrow>
        fileDiff env filePath = Inl e
        \<or> ((fileDiff env filePath = Inr None \<or> fileDiff env filePath = Inr (Some []))
            \<and> logLine env NoDiffLine = Some e)
        \<or> (\<exists>d. fileDiff env filePath = Inr (Some d) \<and> d \<noteq> []
              \<and> (recentHistory env filePath = Inl e
                 \<or> (\<exists>h. recentHistory env filePath = Inr h
                       \<and> (logLine env ReviewingLine = Some e
                          \<or> (logLine env ReviewingLine = None
                              \<and> callLLM env
                                   (buildUserPrompt filePath
                                      (textTruncate env d (maxDiffChars env)) h)
                                 = Inl e))))))"
proof (intro conjI impI)
  show "callLLM env userPrompt =
      Inl (case logLine env NoFamilyModelLine of Some e \<Rightarrow> e | None \<Rightarrow> noModelsError)"
    if "familyModels env = [] \<and> copilotModels env = []"
    using that by (simp add: callLLM_no_models)
  show "reviewFile env filePath =
      Inl (case logLine env ReviewingLine of
             Some e \<Rightarrow> e
           | None \<Rightarrow>
               (case logLine env NoFamilyModelLine of Some e \<Rightarrow> e | None \<Rightarrow> noModelsError))"
    if "familyModels env = [] \<and> copilotModels env = []
        \<and> fileDiff env filePath = Inr (Some diff) \<and> diff \<noteq> []
        \<and> recentHistory env filePath = Inr history"
    using that by (simp add: reviewFile_def callLLM_no_models Let_def split: option.splits)
  show "reviewFile env filePath =
      (case logLine env NoDiffLine of Some e \<Rightarrow> Inl e | None \<Rightarrow> Inr [])"
    if "fileDiff env filePath = Inr None \<or> fileDiff env filePath = Inr (Some [])"
    using that by (auto simp: reviewFile_def)
  show "reviewFile env filePath = Inl e \<longleftrightarrow>
        fileDiff env filePath = Inl e
        \<or> ((fileDiff env filePath = Inr None \<or> fileDiff env filePath = Inr (Some []))
            \<and> logLine env NoDiffLine = Some e)
        \<or> (\<exists>d. fileDiff env filePath = Inr (Some d) \<and> d \<noteq> []
              \<and> (recentHistory env filePath = Inl e
                 \<or> (\<exists>h. recentHistory env filePath = Inr h
                       \<and> (logLine env ReviewingLine = Some e
                          \<or> (logLine env ReviewingLine = None
                              \<and> callLLM env
                                   (buildUserPrompt filePath
                                      (textTruncate env d (maxDiffChars env)) h)
                                 = Inl e)))))"
    by (auto simp: reviewFile_def Let_def split: sum.splits option.splits)
qed

theorem review_file_abort_conditions_witness:
  "familyModels noModelEnv = [] \<and> copilotModels noModelEnv = []
   \<and> fileDiff noModelEnv ''src/auth.ts'' = Inr (Some ''+  skipAuth();'')
   \<and> recentHistory noModelEnv ''src/auth.ts'' = Inr ''abc123 fix auth''
   \<and> logLine noModelEnv ReviewingLine = None \<and> logLine noModelEnv NoFamilyModelLine = None
   \<and> reviewFile noModelEnv ''src/auth.ts'' = Inl noModelsError"
  using review_file_abort_conditions[of noModelEnv _ "''src/auth.ts''" "''+  skipAuth();''"
      "''abc123 fix auth''"]
  by (simp add: noModelEnv_def exampleEnv_def authDiff_def authHistory_def logLine_def)

text \<open>
  The claim as stated fails twice. With a model available, a failing diff fetch aborts the
  review with an error that is not the fatal one. With no model available, the review of a
  file that has no diff returns the empty list.
\<close>

theorem review_aborts_for_other_errors_counterexample:
  "familyModels brokenGitEnv = [toolThenVerdict]
   \<and> reviewFile brokenGitEnv ''src/auth.ts'' = Inl (Error ''git error'')
   \<and> Error ''git error'' \<noteq> noModelsError
   \<and> familyModels cleanNoModelEnv = [] \<and> copilotModels cleanNoModelEnv = []
   \<and> reviewFile cleanNoModelEnv ''src/unchanged.ts'' = Inr []"
  by (simp add: brokenGitEnv_def cleanNoModelEnv_def noModelEnv_def exampleEnv_def reviewFile_def
      gitError_def noDiff_def noModelsError_def logLine_def)

subsection \<open>The sweep over the files\<close>

lemma reviewFilesFrom_result:
  "map_sum id fst (reviewFilesFrom envAt stop onProgress i fs acc) =
     (case List.map_filter (handlerThrows envAt onProgress)
             (takeWhile (\<lambda>p. \<not> stop (fst p)) (enumerate i fs)) of
        [] \<Rightarrow>
          Inr (fst acc @ concat (map (issuesOfFile envAt)
                                   (takeWhile (\<lambda>p. \<not> stop (fst p)) (enumerate i fs))))
      | e # es \<Rightarrow> Inl e)"
proof (induction fs arbitrary: i acc)
  case Nil
  then show ?case by (simp add: List.map_filter_simps)
next
  case (Cons f fs)
  show ?case
  proof (cases "stop i")
    case True
    then show ?thesis by (simp add: List.map_filter_simps)
  next
    case False
    show ?thesis
    proof (cases "handlerThrows envAt onProgress (i, f)")
      case (Some e)
      then show ?thesis
        using False
        by (auto simp: List.map_filter_simps handlerThrows_def entersHandler_def Let_def
            split: sum.splits option.splits if_splits)
    next
      case None
      then show ?thesis
        using False Cons.IH[of "Suc i"]
        by (auto simp: List.map_filter_simps handlerThrows_def entersHandler_def
            issuesOfFile_def Let_def split: sum.splits option.splits if_splits list.splits)
    qed
  qed
qed

lemma map_filter_none:
  "(\<forall>x \<in> set xs. f x = None) \<Longrightarrow> List.map_filter f xs = []"
  by (induction xs) (simp_all add: List.map_filter_simps)

text \<open>
  C10, as the code has it. Each round of the sweep that does not end in the handler goes on
  with the next file, and so does each round whose handler writes its log line: the error
  thrown by the review of the file, whatever it is, is dropped there. \<^verbatim>\<open>reviewFiles\<close> rejects
  exactly when, before cancellation is requested, the handler of some round throws because
  its log line cannot be written, and then with the error of the first such round. Otherwise
  it returns, in order, the issues of every file whose review succeeded, up to the first file
  before which cancellation is requested. So when every handler can write its line
  \<^verbatim>\<open>reviewFiles\<close> does not reject, and when in addition cancellation is never requested the
  issues of all the files that succeeded are returned.
\<close>

theorem review_files_rejects_only_from_handler:
  "reviewFiles envAt stopBefore onProgress filePaths =
     (case List.map_filter (handlerThrows envAt onProgress)
             (takeWhile (\<lambda>p. \<not> stopBefore (fst p)) (enumerate 0 filePaths)) of
        [] \<Rightarrow>
          Inr (concat (map (issuesOfFile envAt)
                         (takeWhile (\<lambda>p. \<not> stopBefore (fst p)) (enumerate 0 filePaths))))
      | e # es \<Rightarrow> Inl e)
   \<and> ((\<forall>i < length filePaths. logLine (envAt i) ReviewErrorLine = None) \<longrightarrow>
        reviewFiles envAt stopBefore onProgress filePaths =
          Inr (concat (map (issuesOfFile envAt)
                         (takeWhile (\<lambda>p. \<not> stopBefore (fst p)) (enumerate 0 filePaths)))))
   \<and> ((\<forall>i < length filePaths. logLine (envAt i) ReviewErrorLine = None \<and> \<not> stopBefore i) \<longrightarrow>
        reviewFiles envAt stopBefore onProgress filePaths =
          Inr (concat (map (issuesOfFile envAt) (enumerate 0 filePaths))))"
proof -
  let ?reviewed = "takeWhile (\<lambda>p. \<not> stopBefore (fst p)) (enumerate 0 filePaths)"
  have 1: "reviewFiles envAt stopBefore onProgress filePaths =
     (case List.map_filter (handlerThrows envAt onProgress) ?reviewed of
        [] \<Rightarrow> Inr (concat (map (issuesOfFile envAt) ?reviewed))
      | e # es \<Rightarrow> Inl e)"
    using reviewFilesFrom_result[of envAt stopBefore onProgress 0 filePaths "([], [])"]
    by (simp add: reviewFiles_def split: list.splits)
  have 2: "List.map_filter (handlerThrows envAt onProgress) ?reviewed = []"
    if a: "\<forall>i < length filePaths. logLine (envAt i) ReviewErrorLine = None"
  proof (rule map_filter_none, rule ballI)
    fix p assume "p \<in> set ?reviewed"
    then have "p \<in> set (enumerate 0 filePaths)"
      by (rule set_takeWhileD[THEN conjunct1])
    moreover obtain i f where "p = (i, f)"
      by (cases p)
    ultimately have "fst p < length filePaths"
      by (simp add: in_set_enumerate_eq)
    then show "handlerThrows envAt onProgress p = None"
      using a by (simp add: handlerThrows_def)
  qed
  have 3: "?reviewed = enumerate 0 filePaths"
    if a: "\<forall>i < length filePaths. logLine (envAt i) ReviewErrorLine = None \<and> \<not> stopBefore i"
    by (rule takeWhile_all) (use a in \<open>auto simp: in_set_enumerate_eq\<close>)
  show ?thesis
  proof (intro conjI impI)
    show "reviewFiles envAt stopBefore onProgress filePaths =
     (case List.map_filter (handlerThrows envAt onProgress) ?reviewed of
        [] \<Rightarrow> Inr (concat (map (issuesOfFile envAt) ?reviewed))
      | e # es \<Rightarrow> Inl e)"
      by (rule 1)
  next
    assume "\<forall>i < length filePaths. logLine (envAt i) ReviewErrorLine = None"
    from 2[OF this] show "reviewFiles envAt stopBefore onProgress filePaths =
        Inr (concat (map (issuesOfFile envAt) ?reviewed))"
      by (simp add: 1)
  next
    assume a: "\<forall>i < length filePaths. logLine (envAt i) ReviewErrorLine = None \<and> \<not> stopBefore i"
    then have b: "\<forall>i < length filePaths. logLine (envAt i) ReviewErrorLine = None"
      by simp
    have "reviewFiles envAt stopBefore onProgress filePaths =
        Inr (concat (map (issuesOfFile envAt) ?reviewed))"
      by (simp add: 1 2[OF b])
    then show "reviewFiles envAt stopBefore onProgress filePaths =
        Inr (concat (map (issuesOfFile envAt) (enumerate 0 filePaths)))"
      unfolding 3[OF a] .
  qed
qed


lemma example_review:
  "reviewFile exampleEnv ''src/auth.ts'' =
     Inr [\<lparr>tier = ''medium'', file = ''src/auth.ts'', line = 1, title = ''Login call suspicious'',
           explanation = ''login() called without guard''\<rparr>]"
proof -
  have env: "cancellationRequested exampleEnv = neverCancelled"
    "textTruncate exampleEnv = truncateText" "jsonParse exampleEnv = exampleParse"
    "familyModels exampleEnv = [toolThenVerdict]" "fileDiff exampleEnv = authDiff"
    "recentHistory exampleEnv = authHistory" "executeToolCall exampleEnv = loginSource"
    by (simp_all add: exampleEnv_def)
  have l: "logLine exampleEnv site = None" for site
    by (simp add: logLine_def exampleEnv_def)
  have "fst (runAgentLoop exampleEnv toolThenVerdict p) =
      parseResponse truncateText exampleParse (logLine exampleEnv) verdictText" for p
    by (simp add: runAgentLoop_def openingState_def agentLoopFrom.simps[of exampleEnv toolThenVerdict 0]
        agentLoopFrom.simps[of exampleEnv toolThenVerdict "Suc 0"] MAX_AGENT_ITERATIONS_def
        Let_def env l neverCancelled_def toolThenVerdict_def isToolCall_def isText_def
        partValue_def loginSource_def)
  then show ?thesis
    by (simp add: reviewFile_def callLLM_def Let_def verdict_parsed env l authDiff_def
        authHistory_def)
qed

theorem review_files_rejects_only_from_handler_witness:
  "reviewFile (sweepEnv 0) ''src/broken.ts'' = Inl noModelsError
   \<and> logLine (sweepEnv 0) ReviewErrorLine = None \<and> logLine (sweepEnv 1) ReviewErrorLine = None
   \<and> reviewFiles sweepEnv neverCancelled None [''src/broken.ts'', ''src/auth.ts''] =
       Inr [\<lparr>tier = ''medium'', file = ''src/auth.ts'', line = 1,
              title = ''Login call suspicious'',
              explanation = ''login() called without guard''\<rparr>]"
proof -
  have l: "logLine (sweepEnv i) site = None" for i site
    by (simp add: logLine_def sweepEnv_def noModelEnv_def exampleEnv_def)
  have b: "reviewFile (sweepEnv 0) ''src/broken.ts'' = Inl noModelsError"
    by (simp add: sweepEnv_def noModelEnv_def exampleEnv_def reviewFile_def callLLM_def
        authDiff_def authHistory_def Let_def logLine_def)
  have a: "reviewFile (sweepEnv (Suc 0)) ''src/auth.ts'' = reviewFile exampleEnv ''src/auth.ts''"
    by (simp add: sweepEnv_def)
  show ?thesis
    using review_files_rejects_only_from_handler[of sweepEnv neverCancelled None
        "[''src/broken.ts'', ''src/auth.ts'']"]
    by (simp add: neverCancelled_def b a l example_review enumerate_eq_zip upt_rec
        issuesOfFile_def handlerThrows_def List.map_filter_simps)
qed

text \<open>
  The claim as stated fails when the handler cannot write its log line: the diff fetch of the
  file below fails, the output channel has been closed, and \<^verbatim>\<open>reviewFiles\<close> rejects with the
  error of \<^verbatim>\<open>appendLine\<close>.
\<close>

theorem closed_channel_rejects_sweep_counterexample:
  "reviewFile (closedSweepEnv 0) ''src/auth.ts'' = Inl (Error ''git error'')
   \<and> reviewFiles closedSweepEnv neverCancelled None [''src/auth.ts'']
       = Inl (Error ''Channel has been closed'')"
  by (simp add: reviewFiles_def closedSweepEnv_def brokenGitEnv_def exampleEnv_def
      reviewFile_def gitError_def neverCancelled_def logLine_def closedChannel_def)

subsection \<open>The round trip through parseResponse\<close>

lemma dropWhile_hd: "xs \<noteq> [] \<Longrightarrow> \<not> P (hd xs) \<Longrightarrow> dropWhile P xs = xs"
  by (cases xs) simp_all

lemma trim_id:
  assumes "s \<noteq> []" "\<not> isSpace (hd s)" "\<not> isSpace (last s)"
  shows "trim s = s"
proof -
  have 1: "dropWhile isSpace s = s"
    by (rule dropWhile_hd) (simp_all add: assms)
  have 2: "dropWhile isSpace (rev s) = rev s"
    by (rule dropWhile_hd) (simp_all add: assms hd_rev)
  show ?thesis
    unfolding trim_def 1 2 by simp
qed

lemma arrayMatch_whole:
  assumes "s \<noteq> []" "hd s = CHR ''[''" "last s = CHR '']''"
  shows "arrayMatch s = Some s"
proof -
  have 1: "dropWhile (\<lambda>c. c \<noteq> CHR ''['') s = s"
    by (rule dropWhile_hd) (simp_all add: assms)
  have 2: "dropWhile (\<lambda>c. c \<noteq> CHR '']'') (rev s) = rev s"
    by (rule dropWhile_hd) (simp_all add: assms hd_rev)
  show ?thesis
    unfolding arrayMatch_def Let_def 1 2 using assms by simp
qed

text \<open>
  C7, as the code has it. Take a list of valid issue objects and a serialization of it that
  starts with an opening bracket, ends with a closing bracket, parses back to the list, and
  in which the fence pattern of \<^verbatim>\<open>parseResponse\<close> finds no match. Then \<^verbatim>\<open>parseResponse\<close> returns
  one issue for each object, in order: the tier unchanged (one of high, medium, low), the line
  rounded and then raised to 1 when it is below, the title cut to 80 characters, the
  explanation cut to 500 characters, and the file as given or empty when it is absent.
\<close>

theorem serialized_issues_parse_back:
  assumes "list_all isValidIssue issues"
    and "stringify (JArray issues) \<noteq> []"
    and "hd (stringify (JArray issues)) = CHR ''[''"
    and "last (stringify (JArray issues)) = CHR '']''"
    and "parse (stringify (JArray issues)) = Some (JArray issues)"
    and "fenceMatch (stringify (JArray issues)) = None"
  shows "parseResponse truncateText parse writeLog (stringify (JArray issues))
           = Inr (map (normalizeIssue truncateText) issues)
       \<and> list_all (\<lambda>v.
            tier (normalizeIssue truncateText v) = asString (property v ''tier'')
          \<and> tier (normalizeIssue truncateText v) \<in> set [''high'', ''medium'', ''low'']
          \<and> line (normalizeIssue truncateText v) = max 1 \<lfloor>asNumber (property v ''line'') + 1 / 2\<rfloor>
          \<and> 1 \<le> line (normalizeIssue truncateText v)
          \<and> title (normalizeIssue truncateText v) = take 80 (asString (property v ''title''))
          \<and> explanation (normalizeIssue truncateText v)
              = take 500 (asString (property v ''explanation''))
          \<and> file (normalizeIssue truncateText v)
              = (if isString (property v ''file'') then asString (property v ''file'') else [])) issues"
proof -
  let ?text = "stringify (JArray issues)"
  have sp: "\<not> isSpace (CHR ''['')" "\<not> isSpace (CHR '']'')"
    by (simp_all add: isSpace_def)
  have t: "trim ?text = ?text"
    using assms(2,3,4) sp by (intro trim_id) simp_all
  have a: "arrayMatch ?text = Some ?text"
    using assms(2,3,4) by (rule arrayMatch_whole)
  have f: "filter isValidIssue issues = issues"
    using assms(1) by (simp add: list_all_iff)
  have 1: "parseResponse truncateText parse writeLog ?text
      = Inr (map (normalizeIssue truncateText) issues)"
    by (simp add: parseResponse_def t a f assms(5,6) Let_def)
  have 2: "\<And>v. isValidIssue v \<Longrightarrow>
      tier (normalizeIssue truncateText v) \<in> set [''high'', ''medium'', ''low'']"
    by (auto simp: isValidIssue_def normalizeIssue_def split: json.splits)
  show ?thesis
    using 1 2 assms(1)
    by (auto simp: list_all_iff normalizeIssue_def truncateText_def mathRound_def)
qed

theorem serialized_issues_parse_back_witness:
  "list_all isValidIssue verdictIssues
   \<and> exampleStringify (JArray verdictIssues) = verdictText
   \<and> exampleParse verdictText = Some (JArray verdictIssues)
   \<and> fenceMatch verdictText = None
   \<and> parseResponse truncateText exampleParse noChannel (exampleStringify (JArray verdictIssues)) =
       Inr [\<lparr>tier = ''medium'', file = ''src/auth.ts'', line = 1, title = ''Login call suspicious'',
             explanation = ''login() called without guard''\<rparr>]"
proof -
  have s: "exampleStringify (JArray verdictIssues) = verdictText"
    by (simp add: exampleStringify_def)
  have v: "list_all isValidIssue verdictIssues"
    by (simp add: verdictIssues_def isValidIssue_def property_def isString_def asString_def
        isNumber_def)
  have p: "exampleParse verdictText = Some (JArray verdictIssues)"
    by (simp add: exampleParse_def)
  have f: "fenceMatch verdictText = None"
    by (simp add: verdictText_def isSpace_def)
  have b: "verdictText \<noteq> []" "hd verdictText = CHR ''[''" "last verdictText = CHR '']''"
    by (simp_all add: verdictText_def)
  have n: "map (normalizeIssue truncateText) verdictIssues =
       [\<lparr>tier = ''medium'', file = ''src/auth.ts'', line = 1, title = ''Login call suspicious'',
         explanation = ''login() called without guard''\<rparr>]"
    by (simp add: verdictIssues_def normalizeIssue_def property_def isString_def asString_def
        asNumber_def mathRound_def truncateText_def)
  from serialized_issues_parse_back[of verdictIssues exampleStringify exampleParse noChannel]
  have "parseResponse truncateText exampleParse noChannel (exampleStringify (JArray verdictIssues))
      = Inr (map (normalizeIssue truncateText) verdictIssues)"
    using v p f b unfolding s by simp
  then show ?thesis
    using v s p f n by simp
qed

text \<open>
  The claim as stated fails for an issue whose title quotes two code fences: the serialized
  list parses back with \<^verbatim>\<open>JSON.parse\<close>, but \<^verbatim>\<open>parseResponse\<close> takes the text between the two
  fences for the response and returns no issue.
\<close>

theorem quoted_fences_break_round_trip_counterexample:
  "list_all isValidIssue fencedIssues
   \<and> exampleStringify (JArray fencedIssues) = fencedText
   \<and> exampleParse fencedText = Some (JArray fencedIssues)
   \<and> parseResponse truncateText exampleParse noChannel (exampleStringify (JArray fencedIssues))
       = Inr []
   \<and> map (normalizeIssue truncateText) fencedIssues =
       [\<lparr>tier = ''low'', file = [], line = 1, title = ''Use ```sh and ```js fences'',
         explanation = ''x''\<rparr>]"
proof -
  have s: "exampleStringify (JArray fencedIssues) = fencedText"
    by (simp add: exampleStringify_def fencedIssues_def verdictIssues_def)
  have v: "list_all isValidIssue fencedIssues"
    by (simp add: fencedIssues_def isValidIssue_def property_def isString_def asString_def
        isNumber_def)
  have p: "exampleParse fencedText = Some (JArray fencedIssues)"
    by (simp add: exampleParse_def fencedText_def verdictText_def)
  have r: "parseResponse truncateText exampleParse noChannel fencedText = Inr []"
    by (simp add: parseResponse_def trim_def isSpace_def fencedText_def arrayMatch_def Let_def
        noChannel_def)
  have n: "map (normalizeIssue truncateText) fencedIssues =
       [\<lparr>tier = ''low'', file = [], line = 1, title = ''Use ```sh and ```js fences'',
         explanation = ''x''\<rparr>]"
    by (simp add: fencedIssues_def normalizeIssue_def property_def isString_def asString_def
        asNumber_def mathRound_def truncateText_def)
  show ?thesis
    using s v p r n by simp
qed

end
